theory Spec2Isabelle
  imports Complex_Main "HOL-Library.Log_Nat" "HOL-Library.Multiset"
begin

chapter \<open>The model\<close>

section \<open>Python exceptions, values and strings\<close>

text \<open>
  An exception is its class together with the text that \<open>str(e)\<close> gives.
  \<open>RequestException\<close> stands for every exception of the \<open>requests\<close>
  hierarchy (connection errors, time-outs, the \<open>HTTPError\<close> of
  \<open>raise_for_status\<close>); \<open>Exception\<close> is the plain exception that
  \<open>analyze_website\<close> raises itself.
\<close>

datatype error =
    RequestException string
  | ZeroDivisionError string
  | OverflowError string
  | TypeError string
  | ValueError string
  | Exception string

fun str_of_error :: "error \<Rightarrow> string" where
  "str_of_error (RequestException m) = m"
| "str_of_error (ZeroDivisionError m) = m"
| "str_of_error (OverflowError m) = m"
| "str_of_error (TypeError m) = m"
| "str_of_error (ValueError m) = m"
| "str_of_error (Exception m) = m"

text \<open>
  The values stored in a check dictionary: integers, strings and \<open>None\<close>.
\<close>

datatype pyval = PInt int | PStr string | PNone

text \<open>
  A Python \<open>str\<close> is modelled as a \<open>string\<close> whose characters are the code
  points 0 to 255, so \<open>length\<close> is Python's \<open>len\<close>.  \<open>is_space\<close> is
  \<open>str.isspace\<close> on these code points, which is what \<open>str.strip()\<close> removes
  at both ends; \<open>is_word_char\<close> is the class \<open>\w\<close> of the \<open>re\<close> module.
\<close>

definition is_space :: "char \<Rightarrow> bool" where
  "is_space c =
     (let n = (of_char c :: nat)
      in (9 \<le> n \<and> n \<le> 13) \<or> (28 \<le> n \<and> n \<le> 32) \<or> n = 133 \<or> n = 160)"

definition strip :: "string \<Rightarrow> string" where
  "strip s = rev (dropWhile is_space (rev (dropWhile is_space s)))"

definition is_word_char :: "char \<Rightarrow> bool" where
  "is_word_char c =
     (let n = (of_char c :: nat)
      in (48 \<le> n \<and> n \<le> 57) \<or> (65 \<le> n \<and> n \<le> 90) \<or> n = 95 \<or> (97 \<le> n \<and> n \<le> 122)
         \<or> n = 170 \<or> n = 178 \<or> n = 179 \<or> n = 181 \<or> n = 185 \<or> n = 186
         \<or> (188 \<le> n \<and> n \<le> 190) \<or> (192 \<le> n \<and> n \<le> 214)
         \<or> (216 \<le> n \<and> n \<le> 246) \<or> (248 \<le> n \<and> n \<le> 255))"

text \<open>
  \<open>len(re.findall(r'\b\w+\b', text))\<close>: the number of maximal runs of word
  characters.  The flag says whether the previous character was a word
  character.
\<close>

fun count_words :: "bool \<Rightarrow> string \<Rightarrow> nat" where
  "count_words inside [] = 0"
| "count_words inside (c # cs) =
     (if is_word_char c
      then (if inside then 0 else 1) + count_words True cs
      else count_words False cs)"

definition startswith :: "string \<Rightarrow> string \<Rightarrow> bool" where
  "startswith s p = (take (length p) s = p)"

text \<open>\<open>p in s\<close> for strings: \<open>p\<close> occurs as a contiguous substring.\<close>

fun contains :: "string \<Rightarrow> string \<Rightarrow> bool" where
  "contains [] p = (p = [])"
| "contains (c # cs) p = (startswith (c # cs) p \<or> contains cs p)"

definition lower_char :: "char \<Rightarrow> char" where
  "lower_char c =
     (let n = (of_char c :: nat)
      in if (65 \<le> n \<and> n \<le> 90) \<or> (192 \<le> n \<and> n \<le> 222 \<and> n \<noteq> 215)
         then char_of (n + 32) else c)"

definition lower :: "string \<Rightarrow> string" where
  "lower s = map lower_char s"

text \<open>\<open>str(n)\<close> for a non-negative integer: its decimal digits.\<close>

fun str_nat :: "nat \<Rightarrow> string" where
  "str_nat n =
     (if n < 10 then [char_of (48 + n)]
      else str_nat (n div 10) @ [char_of (48 + n mod 10)])"

declare str_nat.simps [simp del]

section \<open>Double-precision arithmetic\<close>

text \<open>
  Python's \<open>float\<close> is the IEEE 754 binary64 format.  A finite double is a
  rational; every operation returns the exact result rounded to the nearest
  double, ties to the even significand.  \<open>pow2 k\<close> is \<open>2\<^sup>k\<close> for an integer
  \<open>k\<close>; \<open>ilog2 x\<close> is the exponent \<open>e\<close> with \<open>2\<^sup>e \<le> x < 2\<^sup>e\<^sup>+\<^sup>1\<close> of a
  positive rational; \<open>round_double\<close> rounds to 53 significant bits, or to a
  multiple of \<open>2\<^sup>-\<^sup>1\<^sup>0\<^sup>7\<^sup>4\<close> in the subnormal range, without a bound on the
  exponent above: the caller turns a result of magnitude \<open>2\<^sup>1\<^sup>0\<^sup>2\<^sup>4\<close> or more
  into an infinity or an \<open>OverflowError\<close>.
\<close>

definition pow2 :: "int \<Rightarrow> rat" where
  "pow2 k = (if 0 \<le> k then 2 ^ nat k else 1 / 2 ^ nat (- k))"

definition round_half_even :: "rat \<Rightarrow> int" where
  "round_half_even x =
     (let f = \<lfloor>x\<rfloor>; r = x - of_int f
      in if r < 1 / 2 then f
         else if 1 / 2 < r then f + 1
         else if even f then f else f + 1)"

definition ilog2 :: "rat \<Rightarrow> int" where
  "ilog2 x =
     (let (p, d) = quotient_of x; e0 = bitlen p - bitlen d
      in if pow2 e0 \<le> x then e0 else e0 - 1)"

definition round_double :: "rat \<Rightarrow> rat" where
  "round_double x =
     (if x = 0 then 0
      else let a = \<bar>x\<bar>;
               q = max (ilog2 a) (- 1022) - 52;
               m = round_half_even (a / pow2 q)
           in sgn x * of_int m * pow2 q)"

datatype pyfloat = Fin rat | PInf | NInf

definition to_float :: "rat \<Rightarrow> pyfloat" where
  "to_float r = (if 2 ^ 1024 \<le> r then PInf else if r \<le> - (2 ^ 1024) then NInf else Fin r)"

text \<open>
  \<open>a / b\<close> on two \<open>int\<close>s is correctly rounded and raises when the quotient
  is too large for a double.
\<close>

definition int_true_divide :: "int \<Rightarrow> int \<Rightarrow> error + rat" where
  "int_true_divide a b =
     (if b = 0 then Inl (ZeroDivisionError ''division by zero'')
      else let y = round_double (of_int a / of_int b)
           in if 2 ^ 1024 \<le> \<bar>y\<bar>
              then Inl (OverflowError ''integer division result too large for a float'')
              else Inr y)"

text \<open>The product and the sum of two finite doubles; both may overflow to an infinity.\<close>

definition float_mul :: "rat \<Rightarrow> rat \<Rightarrow> pyfloat" where
  "float_mul x y = to_float (round_double (x * y))"

definition float_add :: "rat \<Rightarrow> rat \<Rightarrow> pyfloat" where
  "float_add x y = to_float (round_double (x + y))"

text \<open>The conversion of an \<open>int\<close> operand to a double in mixed arithmetic.\<close>

definition int_to_float :: "int \<Rightarrow> error + rat" where
  "int_to_float n =
     (let y = round_double (of_int n)
      in if 2 ^ 1024 \<le> \<bar>y\<bar>
         then Inl (OverflowError ''int too large to convert to float'')
         else Inr y)"

text \<open>\<open>round(x)\<close> with one argument: the nearest integer, ties to even.\<close>

fun py_round :: "pyfloat \<Rightarrow> error + int" where
  "py_round (Fin x) = Inr (round_half_even x)"
| "py_round PInf = Inl (OverflowError ''cannot convert float infinity to integer'')"
| "py_round NInf = Inl (OverflowError ''cannot convert float infinity to integer'')"

text \<open>\<open>x < y\<close> on floats.\<close>

fun float_less :: "pyfloat \<Rightarrow> pyfloat \<Rightarrow> bool" where
  "float_less (Fin x) (Fin y) = (x < y)"
| "float_less (Fin x) PInf = True"
| "float_less (Fin x) NInf = False"
| "float_less PInf y = False"
| "float_less NInf NInf = False"
| "float_less NInf y = True"

section \<open>The parsed document\<close>

text \<open>
  The tree that \<open>BeautifulSoup(content, 'html.parser')\<close> returns: a tag has
  a name, its attribute dictionary and its children; a \<open>NavigableString\<close>
  is a piece of text; \<open>Comment\<close> stands for the string nodes that
  \<open>get_text\<close> leaves out.  The document itself is the root tag.
\<close>

datatype node =
    Tag string "(string \<times> string) list" "node list"
  | NavigableString string
  | Comment string

text \<open>\<open>tag.descendants\<close>: every node below the tag, in document order.\<close>

fun descendants :: "node \<Rightarrow> node list" where
  "descendants (Tag name attrs children) = concat (map (\<lambda>c. c # descendants c) children)"
| "descendants (NavigableString s) = []"
| "descendants (Comment s) = []"

fun is_tag :: "string \<Rightarrow> node \<Rightarrow> bool" where
  "is_tag n (Tag name attrs children) = (name = n)"
| "is_tag n (NavigableString s) = False"
| "is_tag n (Comment s) = False"

text \<open>\<open>tag.get(key)\<close>: the attribute, or \<open>None\<close>.\<close>

fun attr_get :: "node \<Rightarrow> string \<Rightarrow> string option" where
  "attr_get (Tag name attrs children) key = map_of attrs key"
| "attr_get (NavigableString s) key = None"
| "attr_get (Comment s) key = None"

text \<open>\<open>soup.find_all(name)\<close>, \<open>soup.find(name)\<close> and \<open>soup.find(name, attrs={k: v})\<close>.\<close>

definition find_all :: "string \<Rightarrow> node \<Rightarrow> node list" where
  "find_all name soup = filter (is_tag name) (descendants soup)"

definition find_tag :: "string \<Rightarrow> node \<Rightarrow> node option" where
  "find_tag name soup = List.find (is_tag name) (descendants soup)"

definition find_tag_attrs :: "string \<Rightarrow> string \<times> string \<Rightarrow> node \<Rightarrow> node option" where
  "find_tag_attrs name kv soup =
     List.find (\<lambda>n. is_tag name n \<and> attr_get n (fst kv) = Some (snd kv)) (descendants soup)"

fun node_text :: "node \<Rightarrow> string" where
  "node_text (NavigableString s) = s"
| "node_text (Tag name attrs children) = []"
| "node_text (Comment s) = []"

definition get_text :: "node \<Rightarrow> string" where
  "get_text t = concat (map node_text (descendants t))"

section \<open>seo_analyzer.py: the checks\<close>

text \<open>
  A check is the dictionary that the check functions build; the result of a
  check function is the dictionary of its checks, and \<open>details\<close> maps the
  category to them.  Dictionaries keep their insertion order, which is the
  order of iteration.
\<close>

type_synonym check = "(string \<times> pyval) list"
type_synonym checks = "(string \<times> check) list"
type_synonym details = "(string \<times> checks) list"

definition check_dict :: "string \<Rightarrow> int \<Rightarrow> int \<Rightarrow> string \<Rightarrow> pyval \<Rightarrow> string \<Rightarrow> check" where
  "check_dict status score max_score message recommendation priority =
     [(''status'', PStr status), (''score'', PInt score), (''max_score'', PInt max_score),
      (''message'', PStr message), (''recommendation'', recommendation),
      (''priority'', PStr priority)]"

text \<open>
  The response of \<open>session.get\<close>: \<open>resp_url\<close> is \<open>response.url\<close>, the final
  URL after redirects.  The header dictionary is case-insensitive.
\<close>

record response =
  status_code :: nat
  reason :: string
  headers :: "(string \<times> string) list"
  content :: string
  resp_url :: string

definition header_get :: "(string \<times> string) list \<Rightarrow> string \<Rightarrow> string option" where
  "header_get hs key = map_of (map (\<lambda>(k, v). (lower k, v)) hs) (lower key)"

record parsed_url =
  scheme :: string
  netloc :: string

text \<open>
  What the analyzer takes from outside: the HTTP session (\<open>Inl\<close> is the
  exception that \<open>session.get\<close> raised), \<open>urlparse\<close>, the HTML parser, the
  elapsed time in milliseconds that \<open>analyze_website\<close> measures around the
  fetch, and the three metric blocks \<open>_analyze_seo_metrics\<close>,
  \<open>_analyze_performance\<close> and \<open>_analyze_security\<close>, whose results enter no
  check and no score: they are any functions that return a value or raise.
\<close>

record ('m, 'p, 's) env =
  session_get :: "string \<Rightarrow> error + response"
  urlparse :: "string \<Rightarrow> error + parsed_url"
  parse_html :: "string \<Rightarrow> node"
  load_time_ms :: int
  analyze_seo_metrics :: "string \<Rightarrow> response \<Rightarrow> node \<Rightarrow> int \<Rightarrow> error + 'm"
  analyze_performance :: "string \<Rightarrow> response \<Rightarrow> int \<Rightarrow> error + 'p"
  analyze_security :: "string \<Rightarrow> response \<Rightarrow> error + 's"

definition get_page_title :: "node \<Rightarrow> string option" where
  "get_page_title soup =
     (case find_tag ''title'' soup of
        Some title_tag \<Rightarrow> Some (strip (get_text title_tag))
      | None \<Rightarrow> None)"

definition get_meta_description :: "node \<Rightarrow> string option" where
  "get_meta_description soup =
     (case find_tag_attrs ''meta'' (''name'', ''description'') soup of
        Some meta_desc \<Rightarrow>
          Some (strip (case attr_get meta_desc ''content'' of None \<Rightarrow> [] | Some c \<Rightarrow> c))
      | None \<Rightarrow> None)"

subsection \<open>\<open>_check_seo_factors\<close>\<close>

definition title_tag_check :: "node \<Rightarrow> check" where
  "title_tag_check soup =
     (case find_tag ''title'' soup of
        Some title \<Rightarrow>
          (let title_text = strip (get_text title)
           in if length title_text = 0
              then check_dict ''fail'' 0 10 ''Title tag is empty''
                     (PStr ''Add a descriptive title tag to your page'') ''high''
              else if length title_text > 60
              then check_dict ''warning'' 7 10
                     (''Title tag is too long ('' @ str_nat (length title_text) @ '' characters)'')
                     (PStr ''Keep title tags under 60 characters for better display in search results'')
                     ''medium''
              else check_dict ''pass'' 10 10
                     (''Title tag length is optimal ('' @ str_nat (length title_text) @ '' characters)'')
                     PNone ''low'')
      | None \<Rightarrow>
          check_dict ''fail'' 0 10 ''Title tag is missing''
            (PStr ''Add a title tag to your page'') ''critical'')"

definition meta_description_check :: "node \<Rightarrow> check" where
  "meta_description_check soup =
     (case find_tag_attrs ''meta'' (''name'', ''description'') soup of
        Some meta_desc \<Rightarrow>
          (let desc_content = strip (case attr_get meta_desc ''content'' of None \<Rightarrow> [] | Some c \<Rightarrow> c)
           in if length desc_content = 0
              then check_dict ''fail'' 0 10 ''Meta description is empty''
                     (PStr ''Add a compelling meta description'') ''high''
              else if length desc_content > 160
              then check_dict ''warning'' 7 10
                     (''Meta description is too long ('' @ str_nat (length desc_content) @ '' characters)'')
                     (PStr ''Keep meta descriptions under 160 characters'') ''medium''
              else check_dict ''pass'' 10 10
                     (''Meta description length is optimal ('' @ str_nat (length desc_content) @ '' characters)'')
                     PNone ''low'')
      | None \<Rightarrow>
          check_dict ''fail'' 0 10 ''Meta description is missing''
            (PStr ''Add a meta description to improve click-through rates'') ''high'')"

definition h1_tag_check :: "node \<Rightarrow> check" where
  "h1_tag_check soup =
     (let h1_tags = find_all ''h1'' soup
      in if length h1_tags = 0
         then check_dict ''fail'' 0 10 ''No H1 tag found''
                (PStr ''Add an H1 tag to clearly define the main topic of your page'') ''high''
         else if length h1_tags > 1
         then check_dict ''warning'' 5 10
                (''Multiple H1 tags found ('' @ str_nat (length h1_tags) @ '')'')
                (PStr ''Use only one H1 tag per page for better SEO'') ''medium''
         else check_dict ''pass'' 10 10 ''Single H1 tag found'' PNone ''low'')"

definition check_seo_factors :: "string \<Rightarrow> node \<Rightarrow> response \<Rightarrow> checks" where
  "check_seo_factors url soup response =
     [(''title_tag'', title_tag_check soup),
      (''meta_description'', meta_description_check soup),
      (''h1_tag'', h1_tag_check soup)]"

subsection \<open>\<open>_check_robots_txt\<close>, \<open>_check_sitemap\<close> and \<open>_check_technical_factors\<close>\<close>

text \<open>
  The loop over the probe URLs: the first exception leaves the loop, the
  first status 200 returns \<open>True\<close>.
\<close>

fun probe_urls :: "(string \<Rightarrow> error + response) \<Rightarrow> string list \<Rightarrow> error + bool" where
  "probe_urls get [] = Inr False"
| "probe_urls get (sitemap_url # rest) =
     (case get sitemap_url of
        Inl e \<Rightarrow> Inl e
      | Inr response \<Rightarrow>
          if status_code response = 200 then Inr True else probe_urls get rest)"

text \<open>
  Both probe functions are one \<open>try\<close> block with a bare \<open>except\<close> that
  returns \<open>False\<close>, so they return a Boolean whatever happens inside.
\<close>

definition check_robots_txt :: "('m, 'p, 's) env \<Rightarrow> string \<Rightarrow> bool" where
  "check_robots_txt e url =
     (case (case urlparse e url of
              Inl ex \<Rightarrow> Inl ex
            | Inr parsed \<Rightarrow>
                (case session_get e (scheme parsed @ ''://'' @ netloc parsed @ ''/robots.txt'') of
                   Inl ex \<Rightarrow> Inl ex
                 | Inr response \<Rightarrow> Inr (status_code response = 200)))
      of Inl ex \<Rightarrow> False | Inr b \<Rightarrow> b)"

definition sitemap_urls :: "parsed_url \<Rightarrow> string list" where
  "sitemap_urls parsed =
     [scheme parsed @ ''://'' @ netloc parsed @ ''/sitemap.xml'',
      scheme parsed @ ''://'' @ netloc parsed @ ''/sitemap_index.xml'']"

definition check_sitemap :: "('m, 'p, 's) env \<Rightarrow> string \<Rightarrow> bool" where
  "check_sitemap e url =
     (case (case urlparse e url of
              Inl ex \<Rightarrow> Inl ex
            | Inr parsed \<Rightarrow> probe_urls (session_get e) (sitemap_urls parsed))
      of Inl ex \<Rightarrow> False | Inr b \<Rightarrow> b)"

definition ssl_certificate_check :: "string \<Rightarrow> check" where
  "ssl_certificate_check url =
     (if startswith url ''https://''
      then check_dict ''pass'' 10 10 ''SSL certificate is present'' PNone ''low''
      else check_dict ''fail'' 0 10 ''No SSL certificate found''
             (PStr ''Install an SSL certificate to secure your website'') ''critical'')"

definition robots_txt_check :: "bool \<Rightarrow> check" where
  "robots_txt_check robots_exists =
     (if robots_exists
      then check_dict ''pass'' 5 5 ''Robots.txt file found'' PNone ''low''
      else check_dict ''warning'' 0 5 ''Robots.txt file not found''
             (PStr ''Create a robots.txt file to guide search engine crawlers'') ''medium'')"

definition xml_sitemap_check :: "bool \<Rightarrow> check" where
  "xml_sitemap_check sitemap_exists =
     (if sitemap_exists
      then check_dict ''pass'' 5 5 ''XML sitemap found'' PNone ''low''
      else check_dict ''warning'' 0 5 ''XML sitemap not found''
             (PStr ''Create an XML sitemap to help search engines index your content'') ''medium'')"

definition check_technical_factors :: "('m, 'p, 's) env \<Rightarrow> string \<Rightarrow> node \<Rightarrow> response \<Rightarrow> checks" where
  "check_technical_factors e url soup response =
     [(''ssl_certificate'', ssl_certificate_check url),
      (''robots_txt'', robots_txt_check (check_robots_txt e url)),
      (''xml_sitemap'', xml_sitemap_check (check_sitemap e url))]"

subsection \<open>\<open>_check_content_factors\<close>\<close>

text \<open>\<open>not img.get('alt')\<close>: the attribute is missing or the empty string.\<close>

definition without_alt :: "node \<Rightarrow> bool" where
  "without_alt img = (case attr_get img ''alt'' of None \<Rightarrow> True | Some a \<Rightarrow> a = [])"

definition image_alt_check :: "node \<Rightarrow> check" where
  "image_alt_check soup =
     (let images = find_all ''img'' soup;
          images_without_alt = filter without_alt images
      in if length images = 0
         then check_dict ''info'' 5 5 ''No images found on page'' PNone ''low''
         else if length images_without_alt = 0
         then check_dict ''pass'' 10 10 ''All images have alt attributes'' PNone ''low''
         else check_dict ''warning'' 5 10
                (str_nat (length images_without_alt) @ '' out of '' @ str_nat (length images)
                   @ '' images missing alt attributes'')
                (PStr ''Add descriptive alt attributes to all images for better accessibility and SEO'')
                ''medium'')"

definition content_length_check :: "node \<Rightarrow> check" where
  "content_length_check soup =
     (let text_content = get_text soup;
          word_count = count_words False text_content
      in if word_count < 300
         then check_dict ''warning'' 3 10
                (''Content is quite short ('' @ str_nat word_count @ '' words)'')
                (PStr ''Consider adding more comprehensive content (aim for 300+ words)'') ''medium''
         else if word_count < 500
         then check_dict ''pass'' 7 10
                (''Content length is adequate ('' @ str_nat word_count @ '' words)'')
                (PStr ''Consider expanding content for better SEO value'') ''low''
         else check_dict ''pass'' 10 10
                (''Content length is good ('' @ str_nat word_count @ '' words)'') PNone ''low'')"

definition check_content_factors :: "node \<Rightarrow> checks" where
  "check_content_factors soup =
     [(''image_alt_attributes'', image_alt_check soup),
      (''content_length'', content_length_check soup)]"

subsection \<open>\<open>_check_performance_factors\<close> and \<open>_check_mobile_factors\<close>\<close>

text \<open>\<open>str(n)\<close> for an integer.\<close>

definition str_int :: "int \<Rightarrow> string" where
  "str_int n = (if n < 0 then CHR ''-'' # str_nat (nat (- n)) else str_nat (nat n))"

definition page_load_time_check :: "int \<Rightarrow> check" where
  "page_load_time_check ms =
     (if ms < 1000
      then check_dict ''pass'' 10 10 (''Page loads quickly ('' @ str_int ms @ ''ms)'') PNone ''low''
      else if ms < 3000
      then check_dict ''warning'' 7 10 (''Page load time is acceptable ('' @ str_int ms @ ''ms)'')
             (PStr ''Consider optimizing images and scripts to improve load time'') ''medium''
      else check_dict ''fail'' 3 10 (''Page loads slowly ('' @ str_int ms @ ''ms)'')
             (PStr ''Optimize images, enable compression, and minimize scripts'') ''high'')"

definition gzip_compression_check :: "response \<Rightarrow> check" where
  "gzip_compression_check response =
     (if contains (case header_get (headers response) ''content-encoding'' of
                     None \<Rightarrow> [] | Some v \<Rightarrow> v) ''gzip''
      then check_dict ''pass'' 5 5 ''GZIP compression is enabled'' PNone ''low''
      else check_dict ''fail'' 0 5 ''GZIP compression is not enabled''
             (PStr ''Enable GZIP compression to reduce page size'') ''medium'')"

definition check_performance_factors :: "response \<Rightarrow> int \<Rightarrow> checks" where
  "check_performance_factors response ms =
     [(''page_load_time'', page_load_time_check ms),
      (''gzip_compression'', gzip_compression_check response)]"

definition viewport_meta_tag_check :: "node \<Rightarrow> check" where
  "viewport_meta_tag_check soup =
     (case find_tag_attrs ''meta'' (''name'', ''viewport'') soup of
        Some viewport_meta \<Rightarrow>
          check_dict ''pass'' 10 10 ''Viewport meta tag is present'' PNone ''low''
      | None \<Rightarrow>
          check_dict ''fail'' 0 10 ''Viewport meta tag is missing''
            (PStr ''Add a viewport meta tag for mobile responsiveness'') ''high'')"

definition check_mobile_factors :: "node \<Rightarrow> checks" where
  "check_mobile_factors soup = [(''viewport_meta_tag'', viewport_meta_tag_check soup)]"

subsection \<open>\<open>_calculate_overall_score\<close>\<close>

text \<open>
  \<open>total += v\<close> for an \<open>int\<close> total and a value of a check dictionary.
  \<open>quoted\<close> puts a type name between apostrophes, as the message of the
  \<open>TypeError\<close> does.
\<close>

definition quoted :: "string \<Rightarrow> string" where
  "quoted s = CHR 0x27 # s @ [CHR 0x27]"

fun int_add :: "int \<Rightarrow> pyval \<Rightarrow> error + int" where
  "int_add a (PInt b) = Inr (a + b)"
| "int_add a (PStr s) =
     Inl (TypeError (''unsupported operand type(s) for +=: '' @ quoted ''int'' @ '' and '' @ quoted ''str''))"
| "int_add a PNone =
     Inl (TypeError (''unsupported operand type(s) for +=: '' @ quoted ''int'' @ '' and '' @ quoted ''NoneType''))"

text \<open>The body of the inner loop, on the pair of the two running totals.\<close>

definition add_check :: "int \<times> int \<Rightarrow> check \<Rightarrow> error + int \<times> int" where
  "add_check acc check_data =
     (case acc of (total_score, max_total_score) \<Rightarrow>
        (case (map_of check_data ''score'', map_of check_data ''max_score'') of
           (Some s, Some m) \<Rightarrow>
             (case int_add total_score s of
                Inl e \<Rightarrow> Inl e
              | Inr total_score' \<Rightarrow>
                  (case int_add max_total_score m of
                     Inl e \<Rightarrow> Inl e
                   | Inr max_total_score' \<Rightarrow> Inr (total_score', max_total_score')))
         | _ \<Rightarrow> Inr (total_score, max_total_score)))"

fun sum_checks :: "int \<times> int \<Rightarrow> checks \<Rightarrow> error + int \<times> int" where
  "sum_checks acc [] = Inr acc"
| "sum_checks acc ((check_name, check_data) # rest) =
     (case add_check acc check_data of
        Inl e \<Rightarrow> Inl e
      | Inr acc' \<Rightarrow> sum_checks acc' rest)"

fun sum_details :: "int \<times> int \<Rightarrow> details \<Rightarrow> error + int \<times> int" where
  "sum_details acc [] = Inr acc"
| "sum_details acc ((category, checks) # rest) =
     (case sum_checks acc checks of
        Inl e \<Rightarrow> Inl e
      | Inr acc' \<Rightarrow> sum_details acc' rest)"

definition calculate_overall_score :: "details \<Rightarrow> error + int" where
  "calculate_overall_score details =
     (case sum_details (0, 0) details of
        Inl e \<Rightarrow> Inl e
      | Inr (total_score, max_total_score) \<Rightarrow>
          if max_total_score = 0 then Inr 0
          else (case int_true_divide total_score max_total_score of
                  Inl e \<Rightarrow> Inl e
                | Inr q \<Rightarrow> py_round (float_mul q 100)))"

subsection \<open>\<open>analyze_website\<close>\<close>

record ('m, 'p, 's) analysis_result =
  overall_score :: int
  page_title :: "string option"
  meta_description :: "string option"
  details :: details
  seo_metrics :: 'm
  performance_metrics :: 'p
  security_scan :: 's

text \<open>
  \<open>response.raise_for_status()\<close> raises an \<open>HTTPError\<close>, a
  \<open>RequestException\<close>, for the status codes 400 to 599.
\<close>

definition raise_for_status :: "response \<Rightarrow> error + unit" where
  "raise_for_status r =
     (if 400 \<le> status_code r \<and> status_code r < 500
      then Inl (RequestException (str_nat (status_code r) @ '' Client Error: '' @ reason r
                  @ '' for url: '' @ resp_url r))
      else if 500 \<le> status_code r \<and> status_code r < 600
      then Inl (RequestException (str_nat (status_code r) @ '' Server Error: '' @ reason r
                  @ '' for url: '' @ resp_url r))
      else Inr ())"

text \<open>Sequencing of statements that may raise.\<close>

definition and_then :: "error + 'a \<Rightarrow> ('a \<Rightarrow> error + 'b) \<Rightarrow> error + 'b" where
  "and_then r f = (case r of Inl e \<Rightarrow> Inl e | Inr x \<Rightarrow> f x)"

text \<open>The body of the \<open>try\<close> block.\<close>

definition try_body :: "('m, 'p, 's) env \<Rightarrow> string \<Rightarrow> error + ('m, 'p, 's) analysis_result" where
  "try_body e url =
     and_then (session_get e url) (\<lambda>response.
     and_then (raise_for_status response) (\<lambda>_.
       let soup = parse_html e (content response);
           ms = load_time_ms e
       in
     and_then (analyze_seo_metrics e url response soup ms) (\<lambda>seo.
     and_then (analyze_performance e url response ms) (\<lambda>perf.
     and_then (analyze_security e url response) (\<lambda>sec.
       let checked =
             [(''seo'', check_seo_factors url soup response),
              (''technical'', check_technical_factors e url soup response),
              (''content'', check_content_factors soup),
              (''performance'', check_performance_factors response ms),
              (''mobile'', check_mobile_factors soup)]
       in
     and_then (calculate_overall_score checked) (\<lambda>score.
       Inr \<lparr>overall_score = score,
            page_title = get_page_title soup,
            meta_description = get_meta_description soup,
            details = checked,
            seo_metrics = seo,
            performance_metrics = perf,
            security_scan = sec\<rparr>))))))"

text \<open>The two \<open>except\<close> clauses, in their order.\<close>

definition analyze_website :: "('m, 'p, 's) env \<Rightarrow> string \<Rightarrow> error + ('m, 'p, 's) analysis_result" where
  "analyze_website e url =
     (case try_body e url of
        Inl (RequestException m) \<Rightarrow> Inl (Exception (''Failed to fetch website: '' @ m))
      | Inl ex \<Rightarrow> Inl (Exception (''Analysis failed: '' @ str_of_error ex))
      | Inr analysis_result \<Rightarrow> Inr analysis_result)"

section \<open>cache_service.py: CacheService\<close>

text \<open>
  One entry of \<open>self._cache\<close>.  The time stamps are values of
  \<open>time.time()\<close>; \<open>expires_at\<close> is the float sum of such a value and the
  time to live.
\<close>

record 'v cache_entry =
  entry_value :: 'v
  created_at :: rat
  accessed_at :: rat
  expires_at :: pyfloat

type_synonym 'v cache = "string \<rightharpoonup> 'v cache_entry"

definition default_ttl :: int where
  "default_ttl = 3600"

text \<open>
  \<open>get\<close> reads the clock for the expiry test (\<open>now\<close>) and again for the
  access time (\<open>now'\<close>); it returns the value, or \<open>None\<close>, and the cache
  after the call.
\<close>

definition cache_get :: "'v cache \<Rightarrow> rat \<Rightarrow> rat \<Rightarrow> string \<Rightarrow> 'v option \<times> 'v cache" where
  "cache_get c now now' key =
     (case c key of
        None \<Rightarrow> (None, c)
      | Some cache_entry \<Rightarrow>
          if float_less (expires_at cache_entry) (Fin now)
          then (None, c(key := None))
          else (Some (entry_value cache_entry),
                c(key \<mapsto> cache_entry\<lparr>accessed_at := now'\<rparr>)))"

text \<open>
  \<open>set\<close> reads the clock three times, once for each time stamp.
\<close>

definition cache_set ::
  "'v cache \<Rightarrow> rat \<Rightarrow> rat \<Rightarrow> rat \<Rightarrow> string \<Rightarrow> 'v \<Rightarrow> int option \<Rightarrow> error + 'v cache" where
  "cache_set c t1 t2 t3 key v ttl =
     (let ttl' = (case ttl of None \<Rightarrow> default_ttl | Some t \<Rightarrow> t)
      in case int_to_float ttl' of
           Inl e \<Rightarrow> Inl e
         | Inr tf \<Rightarrow>
             Inr (c(key \<mapsto> \<lparr>entry_value = v, created_at = t1, accessed_at = t2,
                             expires_at = float_add t3 tf\<rparr>)))"

definition cache_delete :: "'v cache \<Rightarrow> string \<Rightarrow> bool \<times> 'v cache" where
  "cache_delete c key =
     (if c key \<noteq> None then (True, c(key := None)) else (False, c))"

section \<open>Notions used to state the properties\<close>

text \<open>
  Every check of a \<open>details\<close> dictionary, in the order of iteration, and
  what \<open>_calculate_overall_score\<close> reads of a check: its \<open>score\<close> and
  \<open>max_score\<close> entries.
\<close>

definition all_checks :: "details \<Rightarrow> check list" where
  "all_checks d = concat (map (\<lambda>(category, checks). map snd checks) d)"

definition score_fields :: "check \<Rightarrow> pyval option \<times> pyval option" where
  "score_fields c = (map_of c ''score'', map_of c ''max_score'')"

text \<open>
  \<open>has_scores\<close>: the check carries an integer \<open>score\<close> and an integer
  \<open>max_score\<close>.  \<open>fields_ok\<close>: adding the check raises no \<open>TypeError\<close>,
  which is so when one of the two keys is absent or both values are
  integers.  \<open>fields_points\<close>: what the check adds to the two totals.
\<close>

fun has_scores :: "pyval option \<times> pyval option \<Rightarrow> bool" where
  "has_scores (Some (PInt s), Some (PInt m)) = True"
| "has_scores _ = False"

fun fields_ok :: "pyval option \<times> pyval option \<Rightarrow> bool" where
  "fields_ok (Some (PInt s), Some (PInt m)) = True"
| "fields_ok (Some s, Some m) = False"
| "fields_ok _ = True"

fun fields_points :: "pyval option \<times> pyval option \<Rightarrow> int \<times> int" where
  "fields_points (Some (PInt s), Some (PInt m)) = (s, m)"
| "fields_points _ = (0, 0)"

definition check_score :: "check \<Rightarrow> int" where
  "check_score c = fst (fields_points (score_fields c))"

definition check_max_score :: "check \<Rightarrow> int" where
  "check_max_score c = snd (fields_points (score_fields c))"

definition total_points :: "details \<Rightarrow> int" where
  "total_points d = (\<Sum>c\<leftarrow>all_checks d. check_score c)"

definition max_points :: "details \<Rightarrow> int" where
  "max_points d = (\<Sum>c\<leftarrow>all_checks d. check_max_score c)"

fun is_type_error :: "error + 'a \<Rightarrow> bool" where
  "is_type_error (Inl (TypeError m)) = True"
| "is_type_error _ = False"

text \<open>The score as a function of the two totals, once the loops have run.\<close>

definition score_of_sums :: "int \<Rightarrow> int \<Rightarrow> error + int" where
  "score_of_sums t m =
     (if m = 0 then Inr 0
      else (case int_true_divide t m of
              Inl e \<Rightarrow> Inl e
            | Inr q \<Rightarrow> py_round (float_mul q 100)))"

text \<open>A check has this status, score and maximal score.\<close>

definition has_result :: "check \<Rightarrow> string \<Rightarrow> int \<Rightarrow> int \<Rightarrow> bool" where
  "has_result c status score max_score =
     (map_of c ''status'' = Some (PStr status) \<and> map_of c ''score'' = Some (PInt score)
      \<and> map_of c ''max_score'' = Some (PInt max_score))"

text \<open>
  The number of elements with a given name in a document, counted by
  recursion over the tree.
\<close>

fun count_elements :: "string \<Rightarrow> node \<Rightarrow> nat" where
  "count_elements n (Tag name attrs children) =
     sum_list (map (\<lambda>c. (if is_tag n c then 1 else 0) + count_elements n c) children)"
| "count_elements n (NavigableString s) = 0"
| "count_elements n (Comment s) = 0"

text \<open>
  The outcome of a probe is the response or the exception raised:
  \<open>returns_200\<close> says that the probe returned with status 200.  A check is
  \<open>well_scored\<close> when it carries integer scores with
  \<open>0 \<le> score \<le> max_score\<close>.  \<open>analyzed_check\<close> is a check of the result
  of \<open>analyze_website\<close>, if it returned one.
\<close>

definition returns_200 :: "error + response \<Rightarrow> bool" where
  "returns_200 outcome = (case outcome of Inl ex \<Rightarrow> False | Inr r \<Rightarrow> status_code r = 200)"

definition well_scored :: "check \<Rightarrow> bool" where
  "well_scored c =
     (has_scores (score_fields c) \<and> 0 \<le> check_score c \<and> check_score c \<le> check_max_score c)"

definition analyzed_check ::
  "('m, 'p, 's) env \<Rightarrow> string \<Rightarrow> string \<Rightarrow> string \<Rightarrow> check option" where
  "analyzed_check e url category name =
     (case analyze_website e url of
        Inl ex \<Rightarrow> None
      | Inr r \<Rightarrow>
          (case map_of (details r) category of
             None \<Rightarrow> None
           | Some cs \<Rightarrow> map_of cs name))"

text \<open>
  The \<open>details\<close> dictionary that \<open>analyze_website\<close> fills from a fetched
  response and its parsed document.
\<close>

definition checked_details ::
  "('m, 'p, 's) env \<Rightarrow> string \<Rightarrow> node \<Rightarrow> response \<Rightarrow> details" where
  "checked_details e url soup response =
     [(''seo'', check_seo_factors url soup response),
      (''technical'', check_technical_factors e url soup response),
      (''content'', check_content_factors soup),
      (''performance'', check_performance_factors response (load_time_ms e)),
      (''mobile'', check_mobile_factors soup)]"

section \<open>Concrete inputs\<close>

text \<open>
  Two checks with the scores 100 of 100 and 15 of 100: the exact percentage
  is 57.5, halfway between two integers.
\<close>

definition tie_details :: details where
  "tie_details =
     [(''seo'', [(''first'', check_dict ''pass'' 100 100 ''first'' PNone ''low'')]),
      (''content'', [(''second'', check_dict ''warning'' 15 100 ''second'' PNone ''low'')])]"

text \<open>
  Three checks as the check functions build them, and the same checks
  grouped and ordered differently.
\<close>

definition sample_details :: details where
  "sample_details =
     [(''seo'',
        [(''title_tag'', check_dict ''pass'' 10 10 ''Title tag length is optimal (12 characters)'' PNone ''low''),
         (''h1_tag'', check_dict ''warning'' 5 10 ''Multiple H1 tags found (2)''
            (PStr ''Use only one H1 tag per page for better SEO'') ''medium'')]),
      (''mobile'',
        [(''viewport_meta_tag'', check_dict ''fail'' 0 10 ''Viewport meta tag is missing''
            (PStr ''Add a viewport meta tag for mobile responsiveness'') ''high'')])]"

definition regrouped_details :: details where
  "regrouped_details =
     [(''mobile'',
        [(''viewport_meta_tag'', check_dict ''fail'' 0 10 ''Viewport meta tag is missing''
            (PStr ''Add a viewport meta tag for mobile responsiveness'') ''high''),
         (''h1_tag'', check_dict ''warning'' 5 10 ''Multiple H1 tags found (2)''
            (PStr ''Use only one H1 tag per page for better SEO'') ''medium'')]),
      (''other'', []),
      (''seo'',
        [(''title_tag'', check_dict ''pass'' 10 10 ''Title tag length is optimal (12 characters)'' PNone ''low'')])]"

text \<open>
  A cache with one entry, stored at time 1000 with 60 seconds to live, and
  the two entries of a cache with two keys.
\<close>

definition entry_a :: "nat cache_entry" where
  "entry_a = \<lparr>entry_value = 7, created_at = 1000, accessed_at = 1000, expires_at = Fin 1060\<rparr>"

definition entry_b :: "nat cache_entry" where
  "entry_b = \<lparr>entry_value = 8, created_at = 1001, accessed_at = 1002, expires_at = Fin 4601\<rparr>"

text \<open>
  A page with a given title text, a page without a title, and the response
  that carries them.
\<close>

definition page_with_title :: "string \<Rightarrow> node" where
  "page_with_title t =
     Tag ''[document]'' []
       [Tag ''html'' []
          [Tag ''head'' [] [Tag ''title'' [] [NavigableString t]],
           Tag ''body'' [] [Tag ''h1'' [] [NavigableString ''Welcome'']]]]"

definition page_without_title :: node where
  "page_without_title =
     Tag ''[document]'' []
       [Tag ''html'' []
          [Tag ''head'' [] [],
           Tag ''body'' [] [Tag ''p'' [] [NavigableString ''No title here'']]]]"

definition sample_response :: response where
  "sample_response =
     \<lparr>status_code = 200, reason = ''OK'', headers = [(''Content-Type'', ''text/html'')],
      content = ''<html></html>'', resp_url = ''https://example.com/''\<rparr>"

text \<open>
  Pages with two headings, with three images of which two lack an
  alternative text, and with two described images.
\<close>

definition page_two_h1 :: node where
  "page_two_h1 =
     Tag ''[document]'' []
       [Tag ''html'' []
          [Tag ''body'' []
             [Tag ''h1'' [] [NavigableString ''First''],
              Tag ''div'' [] [Tag ''h1'' [] [NavigableString ''Second'']]]]]"

definition page_three_images :: node where
  "page_three_images =
     Tag ''[document]'' []
       [Tag ''html'' []
          [Tag ''body'' []
             [Tag ''img'' [(''src'', ''logo.png''), (''alt'', ''Logo'')] [],
              Tag ''p'' [] [Tag ''img'' [(''src'', ''a.png''), (''alt'', '''')] []],
              Tag ''img'' [(''src'', ''b.png'')] []]]]"

definition page_described_images :: node where
  "page_described_images =
     Tag ''[document]'' []
       [Tag ''html'' []
          [Tag ''body'' []
             [Tag ''img'' [(''src'', ''logo.png''), (''alt'', ''Logo'')] [],
              Tag ''p'' [] [Tag ''img'' [(''alt'', ''Chart''), (''src'', ''c.png'')] []]]]]"

text \<open>
  Title texts: 60 letters between blanks, 61 letters, and blanks only.
\<close>

definition padded_title :: string where
  "padded_title = ''  '' @ replicate 60 (CHR ''a'') @ '' ''"

definition long_title :: string where
  "long_title = replicate 61 (CHR ''a'')"

definition blank_title :: string where
  "blank_title = ''   ''"

definition undescribed_images :: "node list" where
  "undescribed_images =
     [Tag ''img'' [(''src'', ''a.png''), (''alt'', '''')] [],
      Tag ''img'' [(''src'', ''b.png'')] []]"

text \<open>
  Environments.  In \<open>redirect_env\<close> the page \<open>http://example.com/\<close> is
  served after a redirect to \<open>https://example.com/\<close>, every other request
  is refused.  In \<open>refusing_env\<close> every request is refused.  In
  \<open>flaky_env\<close> the request for \<open>/sitemap.xml\<close> times out and every other
  request is answered with status 200.  In \<open>index_env\<close> only the request
  for \<open>/sitemap_index.xml\<close> is answered with status 200, the others with
  status 404.
\<close>

definition example_parsed :: parsed_url where
  "example_parsed = \<lparr>scheme = ''http'', netloc = ''example.com''\<rparr>"

definition not_found_response :: response where
  "not_found_response =
     \<lparr>status_code = 404, reason = ''Not Found'', headers = [],
      content = '''', resp_url = ''http://example.com/''\<rparr>"

definition redirect_env :: "(unit, unit, unit) env" where
  "redirect_env =
     \<lparr>session_get = (\<lambda>u. if u = ''http://example.com/'' then Inr sample_response
                           else Inl (RequestException ''Connection refused'')),
      urlparse = (\<lambda>u. Inr example_parsed),
      parse_html = (\<lambda>c. page_without_title),
      load_time_ms = 250,
      analyze_seo_metrics = (\<lambda>u r s ms. Inr ()),
      analyze_performance = (\<lambda>u r ms. Inr ()),
      analyze_security = (\<lambda>u r. Inr ())\<rparr>"

definition refusing_env :: "(unit, unit, unit) env" where
  "refusing_env = redirect_env\<lparr>session_get := (\<lambda>u. Inl (RequestException ''Connection refused''))\<rparr>"

definition flaky_env :: "(unit, unit, unit) env" where
  "flaky_env =
     redirect_env\<lparr>session_get :=
       (\<lambda>u. if u = ''http://example.com/sitemap.xml'' then Inl (RequestException ''Read timed out'')
            else Inr sample_response)\<rparr>"

definition index_env :: "(unit, unit, unit) env" where
  "index_env =
     redirect_env\<lparr>session_get :=
       (\<lambda>u. if u = ''http://example.com/sitemap_index.xml'' then Inr sample_response
            else Inr not_found_response)\<rparr>"

chapter \<open>Properties\<close>

section \<open>Rounding to a double\<close>

lemma pow2_pos: "0 < pow2 k"
  by (simp add: pow2_def)

lemma pow2_add: "pow2 (a + b) = pow2 a * pow2 b"
proof -
  have "pow2 k = 2 powi k" for k
    by (simp add: pow2_def power_int_def field_simps)
  then show ?thesis by (simp add: power_int_add)
qed

lemma pow2_mono: "a \<le> b \<Longrightarrow> pow2 a \<le> pow2 b"
proof -
  assume "a \<le> b"
  then obtain n where b: "b = a + int n" by (metis zle_iff_zadd)
  have "1 \<le> pow2 (int n)" by (simp add: pow2_def)
  then show ?thesis using pow2_pos[of a] by (simp add: b pow2_add)
qed

lemma pow2_less_imp: "pow2 a < pow2 b \<Longrightarrow> a < b"
  using pow2_mono[of b a] by (cases "a < b") auto

lemma rhe_cases:
  obtains "round_half_even x = \<lfloor>x\<rfloor>" "x - of_int \<lfloor>x\<rfloor> \<le> 1 / 2"
        | "round_half_even x = \<lfloor>x\<rfloor> + 1" "1 / 2 \<le> x - of_int \<lfloor>x\<rfloor>"
  unfolding round_half_even_def Let_def
  by (cases "x - of_int \<lfloor>x\<rfloor> < 1 / 2"; cases "1 / 2 < x - of_int \<lfloor>x\<rfloor>"; cases "even \<lfloor>x\<rfloor>") auto

lemma rhe_err: "\<bar>of_int (round_half_even x) - x\<bar> \<le> 1 / 2"
proof (cases x rule: rhe_cases)
  case 1
  have "of_int \<lfloor>x\<rfloor> \<le> x" by simp
  with 1 show ?thesis by (simp add: abs_le_iff)
next
  case 2
  have "x < of_int \<lfloor>x\<rfloor> + 1" by linarith
  with 2 show ?thesis by (simp add: abs_le_iff)
qed

lemma rhe_of_int: "round_half_even (of_int n) = n"
  by (simp add: round_half_even_def)

lemma rhe_le: assumes "x \<le> of_int n" shows "round_half_even x \<le> n"
proof (cases "x = of_int n")
  case True
  then show ?thesis by (simp add: rhe_of_int)
next
  case False
  with assms have "x < of_int n" by simp
  then have "\<lfloor>x\<rfloor> < n" by (simp add: floor_less_iff)
  then show ?thesis by (cases x rule: rhe_cases) auto
qed

lemma rhe_ge: assumes "of_int n \<le> x" shows "n \<le> round_half_even x"
proof -
  from assms have "n \<le> \<lfloor>x\<rfloor>" by (simp add: le_floor_iff)
  then show ?thesis by (cases x rule: rhe_cases) auto
qed

lemma ilog2_le: assumes "0 < x" shows "pow2 (ilog2 x) \<le> x"
proof -
  obtain p d where pd: "quotient_of x = (p, d)" by (cases "quotient_of x")
  then have d: "0 < d" and x: "x = of_int p / of_int d"
    using quotient_of_denom_pos quotient_of_div by auto
  from assms x d have p: "0 < p" by (simp add: zero_less_divide_iff)
  define e0 where "e0 = bitlen p - bitlen d"
  have "pow2 (e0 - 1) \<le> x"
  proof -
    have bp: "2 ^ nat (bitlen p - 1) \<le> p" and bd: "d < 2 ^ nat (bitlen d)"
      using bitlen_bounds[OF p] bitlen_bounds[OF d] by auto
    have bp1: "1 \<le> bitlen p" and bd1: "1 \<le> bitlen d"
      using p d bitlen_eq_zero_iff[of p] bitlen_eq_zero_iff[of d] bitlen_nonneg[of p] bitlen_nonneg[of d]
      by linarith+
    have A: "pow2 (bitlen p - 1) \<le> of_int p"
    proof -
      have "(of_int (2 ^ nat (bitlen p - 1)) :: rat) \<le> of_int p" using bp by (simp only: of_int_le_iff)
      then show ?thesis using bp1 by (simp add: pow2_def)
    qed
    have B: "of_int d \<le> pow2 (bitlen d)"
    proof -
      have "(of_int d :: rat) \<le> of_int (2 ^ nat (bitlen d))" using bd by (simp only: of_int_le_iff)
      then show ?thesis using bd1 by (simp add: pow2_def)
    qed
    have "pow2 (e0 - 1) * of_int d \<le> pow2 (e0 - 1) * pow2 (bitlen d)"
      using B pow2_pos[of "e0 - 1"] by (simp add: mult_left_mono)
    also have "\<dots> = pow2 (bitlen p - 1)"
      by (simp add: pow2_add[symmetric] e0_def)
    also have "\<dots> \<le> of_int p" by (rule A)
    finally show ?thesis using d by (simp add: x pos_le_divide_eq)
  qed
  then show ?thesis
    unfolding ilog2_def pd e0_def[symmetric] Let_def by (simp add: e0_def)
qed


lemma pow2_nonneg_int: "0 \<le> k \<Longrightarrow> pow2 k = of_int (2 ^ nat k)"
  by (simp add: pow2_def)

lemma pow2_half: "pow2 (k - 1) = pow2 k / 2"
proof -
  have "pow2 (k + (- 1)) = pow2 k * pow2 (- 1)" by (rule pow2_add)
  then show ?thesis by (simp add: pow2_def)
qed

lemma round_double_pos_eq:
  assumes "0 < x"
  shows "round_double x =
         of_int (round_half_even (x / pow2 (max (ilog2 x) (- 1022) - 52))) * pow2 (max (ilog2 x) (- 1022) - 52)"
  using assms by (simp add: round_double_def Let_def)

lemma round_double_bound:
  assumes x: "0 < x" and xc: "x \<le> c" and cE: "c < pow2 (E + 1)" and E: "- 1022 \<le> E"
    and cN: "c = of_int N * pow2 (E - 52)"
  shows "0 \<le> round_double x \<and> round_double x \<le> c \<and> \<bar>round_double x - x\<bar> \<le> pow2 (E - 53)"
proof -
  define q where "q = max (ilog2 x) (- 1022) - 52"
  define m where "m = round_half_even (x / pow2 q)"
  have rd: "round_double x = of_int m * pow2 q"
    using round_double_pos_eq[OF x] by (simp add: q_def m_def)
  have "pow2 (ilog2 x) < pow2 (E + 1)"
    using ilog2_le[OF x] xc cE by linarith
  then have "ilog2 x < E + 1" by (rule pow2_less_imp)
  with E have qE: "q \<le> E - 52" by (simp add: q_def)
  have pq: "0 < pow2 q" by (rule pow2_pos)
  have "of_int 0 \<le> x / pow2 q" using x pq by simp
  then have m0: "0 \<le> m" unfolding m_def by (rule rhe_ge)
  have lower: "0 \<le> round_double x" using m0 pq by (simp add: rd)
  have split: "pow2 (E - 52) = pow2 (E - 52 - q) * pow2 q"
    using pow2_add[of "E - 52 - q" q] by simp
  have "c / pow2 q = of_int N * pow2 (E - 52 - q)"
    using pq by (simp add: cN split)
  also have "\<dots> = of_int (N * 2 ^ nat (E - 52 - q))"
    using qE by (simp add: pow2_nonneg_int)
  finally have cq: "c / pow2 q = of_int (N * 2 ^ nat (E - 52 - q))" .
  have "x / pow2 q \<le> c / pow2 q" using xc pq by (simp add: divide_right_mono)
  then have "m \<le> N * 2 ^ nat (E - 52 - q)" unfolding m_def cq by (rule rhe_le)
  then have "(of_int m :: rat) \<le> of_int (N * 2 ^ nat (E - 52 - q))" by (simp only: of_int_le_iff)
  then have "of_int m \<le> c / pow2 q" by (simp only: cq)
  then have upper: "round_double x \<le> c" using pq by (simp add: rd pos_le_divide_eq)
  have "\<bar>of_int m - x / pow2 q\<bar> \<le> 1 / 2" unfolding m_def by (rule rhe_err)
  then have "\<bar>of_int m - x / pow2 q\<bar> * pow2 q \<le> 1 / 2 * pow2 q"
    using pq by (simp add: mult_right_mono)
  moreover have "\<bar>of_int m - x / pow2 q\<bar> * pow2 q = \<bar>of_int m * pow2 q - x\<bar>"
  proof -
    have "\<bar>of_int m - x / pow2 q\<bar> * pow2 q = \<bar>(of_int m - x / pow2 q) * pow2 q\<bar>"
      using pq by (simp add: abs_mult)
    also have "(of_int m - x / pow2 q) * pow2 q = of_int m * pow2 q - x"
      using pq by (simp add: left_diff_distrib)
    finally show ?thesis .
  qed
  moreover have "1 / 2 * pow2 q \<le> pow2 (E - 53)"
  proof -
    have "pow2 q \<le> pow2 (E - 52)" using qE by (rule pow2_mono)
    moreover have "pow2 (E - 53) = pow2 (E - 52) / 2" using pow2_half[of "E - 52"] by simp
    ultimately show ?thesis by simp
  qed
  ultimately have err: "\<bar>round_double x - x\<bar> \<le> pow2 (E - 53)" by (simp add: rd)
  from lower upper err show ?thesis by blast
qed

lemma round_double_unit:
  assumes "0 < x" "x \<le> 1"
  shows "0 \<le> round_double x \<and> round_double x \<le> 1 \<and> \<bar>round_double x - x\<bar> \<le> 1 / 2 ^ 53"
proof -
  have "0 \<le> round_double x \<and> round_double x \<le> 1 \<and> \<bar>round_double x - x\<bar> \<le> pow2 (0 - 53)"
    using assms by (intro round_double_bound[where N = "2 ^ 52"]) (simp_all add: pow2_def)
  then show ?thesis by (simp add: pow2_def)
qed

lemma round_double_hundred:
  assumes "0 < x" "x \<le> 100"
  shows "0 \<le> round_double x \<and> round_double x \<le> 100 \<and> \<bar>round_double x - x\<bar> \<le> 1 / 2 ^ 47"
proof -
  have "0 \<le> round_double x \<and> round_double x \<le> 100 \<and> \<bar>round_double x - x\<bar> \<le> pow2 (6 - 53)"
    using assms by (intro round_double_bound[where N = "100 * 2 ^ 46"]) (simp_all add: pow2_def)
  then show ?thesis by (simp add: pow2_def)
qed


lemma add_check_ok:
  "fields_ok (score_fields c) \<Longrightarrow>
   add_check (t, m) c = Inr (t + check_score c, m + check_max_score c)"
proof (cases "map_of c ''score''")
  case None
  then show ?thesis by (simp add: add_check_def score_fields_def check_score_def check_max_score_def)
next
  case (Some s)
  note s = this
  assume ok: "fields_ok (score_fields c)"
  show ?thesis
  proof (cases "map_of c ''max_score''")
    case None
    with s show ?thesis by (simp add: add_check_def score_fields_def check_score_def check_max_score_def)
  next
    case (Some mx)
    with s ok show ?thesis
      by (cases s; cases mx) (simp_all add: add_check_def score_fields_def check_score_def check_max_score_def)
  qed
qed

lemma add_check_bad:
  "\<not> fields_ok (score_fields c) \<Longrightarrow> is_type_error (add_check (t, m) c)"
proof (cases "map_of c ''score''")
  case None
  moreover assume "\<not> fields_ok (score_fields c)"
  ultimately show ?thesis by (simp add: score_fields_def)
next
  case (Some s)
  note s = this
  assume bad: "\<not> fields_ok (score_fields c)"
  show ?thesis
  proof (cases "map_of c ''max_score''")
    case None
    with s bad show ?thesis by (simp add: score_fields_def)
  next
    case (Some mx)
    with s bad show ?thesis
      by (cases s; cases mx) (simp_all add: add_check_def score_fields_def)
  qed
qed

lemma sum_checks_ok:
  "list_all (\<lambda>c. fields_ok (score_fields c)) (map snd cs) \<Longrightarrow>
   sum_checks (t, m) cs =
     Inr (t + (\<Sum>c\<leftarrow>map snd cs. check_score c), m + (\<Sum>c\<leftarrow>map snd cs. check_max_score c))"
proof (induction cs arbitrary: t m)
  case Nil
  show ?case by simp
next
  case (Cons a cs)
  obtain n c where a: "a = (n, c)" by (cases a)
  from Cons.prems have ok: "fields_ok (score_fields c)"
    and rest: "list_all (\<lambda>c. fields_ok (score_fields c)) (map snd cs)" by (simp_all add: a)
  show ?case unfolding a by (simp add: add_check_ok[OF ok] Cons.IH[OF rest])
qed

lemma sum_checks_bad:
  "\<not> list_all (\<lambda>c. fields_ok (score_fields c)) (map snd cs) \<Longrightarrow>
   is_type_error (sum_checks (t, m) cs)"
proof (induction cs arbitrary: t m)
  case Nil
  then show ?case by simp
next
  case (Cons a cs)
  obtain n c where a: "a = (n, c)" by (cases a)
  show ?case
  proof (cases "fields_ok (score_fields c)")
    case True
    with Cons.prems have "\<not> list_all (\<lambda>c. fields_ok (score_fields c)) (map snd cs)"
      by (simp add: a)
    from Cons.IH[OF this] show ?thesis unfolding a by (simp add: add_check_ok[OF True])
  next
    case False
    from add_check_bad[OF this, of t m] show ?thesis unfolding a
      by (cases "add_check (t, m) c") auto
  qed
qed

lemma all_checks_Cons: "all_checks ((n, cs) # d) = map snd cs @ all_checks d"
  by (simp add: all_checks_def)

lemma sum_details_ok:
  "list_all (\<lambda>c. fields_ok (score_fields c)) (all_checks d) \<Longrightarrow>
   sum_details (t, m) d =
     Inr (t + (\<Sum>c\<leftarrow>all_checks d. check_score c), m + (\<Sum>c\<leftarrow>all_checks d. check_max_score c))"
proof (induction d arbitrary: t m)
  case Nil
  show ?case by (simp add: all_checks_def)
next
  case (Cons a d)
  obtain n cs where a: "a = (n, cs)" by (cases a)
  from Cons.prems have ok: "list_all (\<lambda>c. fields_ok (score_fields c)) (map snd cs)"
    and rest: "list_all (\<lambda>c. fields_ok (score_fields c)) (all_checks d)"
    by (simp_all add: a all_checks_Cons)
  show ?case unfolding a all_checks_Cons
    by (simp add: sum_checks_ok[OF ok] Cons.IH[OF rest])
qed

lemma sum_details_bad:
  "\<not> list_all (\<lambda>c. fields_ok (score_fields c)) (all_checks d) \<Longrightarrow>
   is_type_error (sum_details (t, m) d)"
proof (induction d arbitrary: t m)
  case Nil
  then show ?case by (simp add: all_checks_def)
next
  case (Cons a d)
  obtain n cs where a: "a = (n, cs)" by (cases a)
  show ?case
  proof (cases "list_all (\<lambda>c. fields_ok (score_fields c)) (map snd cs)")
    case True
    with Cons.prems have "\<not> list_all (\<lambda>c. fields_ok (score_fields c)) (all_checks d)"
      by (simp add: a all_checks_Cons)
    from Cons.IH[OF this] show ?thesis unfolding a by (simp add: sum_checks_ok[OF True])
  next
    case False
    from sum_checks_bad[OF this, of t m] show ?thesis unfolding a
      by (cases "sum_checks (t, m) cs") auto
  qed
qed

lemma calculate_overall_score_ok:
  "list_all (\<lambda>c. fields_ok (score_fields c)) (all_checks d) \<Longrightarrow>
   calculate_overall_score d = score_of_sums (total_points d) (max_points d)"
  by (simp add: calculate_overall_score_def sum_details_ok score_of_sums_def
      total_points_def max_points_def)

lemma calculate_overall_score_bad:
  assumes "\<not> list_all (\<lambda>c. fields_ok (score_fields c)) (all_checks d)"
  shows "is_type_error (calculate_overall_score d)"
proof -
  from sum_details_bad[OF assms, of 0 0] obtain msg where "sum_details (0, 0) d = Inl (TypeError msg)"
    by (cases "sum_details (0, 0) d" rule: is_type_error.cases) auto
  then show ?thesis by (simp add: calculate_overall_score_def)
qed

lemma mset_fields_invariants:
  assumes "mset (map score_fields (all_checks d1)) = mset (map score_fields (all_checks d2))"
  shows "list_all (\<lambda>c. fields_ok (score_fields c)) (all_checks d1) =
         list_all (\<lambda>c. fields_ok (score_fields c)) (all_checks d2)"
    and "total_points d1 = total_points d2"
    and "max_points d1 = max_points d2"
proof -
  let ?f1 = "map score_fields (all_checks d1)" and ?f2 = "map score_fields (all_checks d2)"
  have "set ?f1 = set ?f2" using assms by (rule mset_eq_setD)
  then have "(\<forall>p\<in>set ?f1. fields_ok p) = (\<forall>p\<in>set ?f2. fields_ok p)" by (simp only:)
  then show "list_all (\<lambda>c. fields_ok (score_fields c)) (all_checks d1) =
         list_all (\<lambda>c. fields_ok (score_fields c)) (all_checks d2)" by (simp add: list_all_iff)
  have "sum_list (map g ?f1) = sum_list (map g ?f2)" for g :: "pyval option \<times> pyval option \<Rightarrow> int"
  proof -
    have "mset (map g ?f1) = mset (map g ?f2)" using assms by (metis mset_map)
    then show ?thesis by (metis sum_mset_sum_list)
  qed
  from this[of "\<lambda>p. fst (fields_points p)"] this[of "\<lambda>p. snd (fields_points p)"]
  show "total_points d1 = total_points d2" "max_points d1 = max_points d2"
    by (simp_all add: total_points_def max_points_def check_score_def check_max_score_def comp_def)
qed

lemma score_of_sums_bounds:
  assumes t0: "0 \<le> t" and tm: "t \<le> m" and m0: "m \<noteq> 0"
  shows "\<exists>r. score_of_sums t m = Inr r \<and> 0 \<le> r \<and> r \<le> 100 \<and>
             \<bar>of_int r - 100 * of_int t / (of_int m :: rat)\<bar> \<le> 1 / 2 + 1 / 2 ^ 45"
proof -
  from t0 tm m0 have mpos: "0 < m" by simp
  define x :: rat where "x = of_int t / of_int m"
  define y where "y = round_double x"
  define w where "w = round_double (y * 100)"
  have x0: "0 \<le> x" and x1: "x \<le> 1"
    using t0 tm mpos by (simp_all add: x_def)
  have y: "0 \<le> y \<and> y \<le> 1 \<and> \<bar>y - x\<bar> \<le> 1 / 2 ^ 53"
  proof (cases "x = 0")
    case True
    then show ?thesis by (simp add: y_def round_double_def)
  next
    case False
    with x0 have "0 < x" by simp
    from round_double_unit[OF this x1] show ?thesis by (simp add: y_def)
  qed
  have w: "0 \<le> w \<and> w \<le> 100 \<and> \<bar>w - y * 100\<bar> \<le> 1 / 2 ^ 47"
  proof (cases "y = 0")
    case True
    then show ?thesis by (simp add: w_def round_double_def)
  next
    case False
    with y have "0 < y * 100" "y * 100 \<le> 100" by simp_all
    from round_double_hundred[OF this] show ?thesis by (simp add: w_def)
  qed
  have big: "(1::rat) < 2 ^ 1024" by (rule one_less_power) simp_all
  have big100: "(100::rat) < 2 ^ 1024"
  proof -
    have "(100::rat) < 2 ^ 7" by simp
    also have "\<dots> \<le> 2 ^ 1024" by (rule power_increasing) simp_all
    finally show ?thesis .
  qed
  have div: "int_true_divide t m = Inr y"
    using m0 y big by (simp add: int_true_divide_def Let_def x_def[symmetric] y_def[symmetric] abs_if)
  have mul: "float_mul y 100 = Fin w"
    using w big100 by (simp add: float_mul_def to_float_def w_def[symmetric])
  have res: "score_of_sums t m = Inr (round_half_even w)"
    using m0 by (simp add: score_of_sums_def div mul)
  have r0: "0 \<le> round_half_even w" using w by (intro rhe_ge) simp
  have r100: "round_half_even w \<le> 100" using w by (intro rhe_le) simp
  have e1: "\<bar>of_int (round_half_even w) - w\<bar> \<le> 1 / 2" by (rule rhe_err)
  have e2: "\<bar>w - y * 100\<bar> \<le> 1 / 2 ^ 47" using w by simp
  have e3: "\<bar>y * 100 - x * 100\<bar> \<le> 100 / 2 ^ 53"
  proof -
    have "\<bar>y * 100 - x * 100\<bar> = \<bar>y - x\<bar> * 100" by (simp add: abs_if)
    then show ?thesis using y by simp
  qed
  have "\<bar>of_int (round_half_even w) - x * 100\<bar> \<le> 1 / 2 + 1 / 2 ^ 47 + 100 / 2 ^ 53"
    using e1 e2 e3 by linarith
  also have "\<dots> \<le> 1 / 2 + 1 / 2 ^ 45" by simp
  finally have "\<bar>of_int (round_half_even w) - 100 * of_int t / (of_int m :: rat)\<bar> \<le> 1 / 2 + 1 / 2 ^ 45"
    by (simp add: x_def mult.commute)
  with res r0 r100 show ?thesis by blast
qed

lemma rhe_mod_dist:
  fixes a m :: int
  assumes m: "0 < m" and nt: "2 * (a mod m) \<noteq> m"
  shows "\<bar>of_int (round_half_even (of_int a / of_int m)) - of_int a / (of_int m :: rat)\<bar>
           \<le> 1 / 2 - 1 / (2 * of_int m)"
proof -
  define v :: rat where "v = of_int a / of_int m"
  have fl: "\<lfloor>v\<rfloor> = a div m" by (simp add: v_def floor_divide_of_int_eq)
  have mrat: "(0::rat) < of_int m" using m by simp
  have "of_int a = of_int (a div m) * (of_int m :: rat) + of_int (a mod m)"
    by (metis div_mult_mod_eq of_int_add of_int_mult)
  then have "v = (of_int (a div m) * of_int m + of_int (a mod m)) / of_int m"
    by (simp only: v_def)
  also have "\<dots> = of_int (a div m) + of_int (a mod m) / of_int m"
    using mrat by (simp add: add_divide_distrib)
  finally have "v - of_int (a div m) = of_int (a mod m) / of_int m" by simp
  then have fr: "v - of_int \<lfloor>v\<rfloor> = of_int (a mod m) / of_int m"
    by (simp only: fl)
  show ?thesis
  proof (cases "2 * (a mod m) < m")
    case True
    then have "2 * (a mod m) + 1 \<le> m" by simp
    then have "(of_int (2 * (a mod m) + 1) :: rat) \<le> of_int m" by (simp only: of_int_le_iff)
    then have le: "2 * (of_int (a mod m) :: rat) + 1 \<le> of_int m" by simp
    have "(2 * of_int (a mod m) + 1) / (2 * of_int m) \<le> of_int m / (2 * (of_int m :: rat))"
      using le mrat by (intro divide_right_mono) simp_all
    then have bound: "of_int (a mod m) / of_int m + 1 / (2 * of_int m) \<le> (1 / 2 :: rat)"
      using mrat by (simp add: add_divide_distrib)
    have inv: "0 < 1 / (2 * (of_int m :: rat))" using mrat by simp
    have half: "v - of_int \<lfloor>v\<rfloor> < 1 / 2"
      using bound inv unfolding fr by linarith
    then have "round_half_even v = \<lfloor>v\<rfloor>" by (simp add: round_half_even_def Let_def)
    moreover have "v - of_int \<lfloor>v\<rfloor> \<le> 1 / 2 - 1 / (2 * of_int m)"
      using bound unfolding fr by linarith
    moreover have "0 \<le> v - of_int \<lfloor>v\<rfloor>" by simp
    ultimately show ?thesis unfolding v_def[symmetric] abs_le_iff by (simp; linarith)
  next
    case False
    with nt have "m + 1 \<le> 2 * (a mod m)" by simp
    then have "(of_int (m + 1) :: rat) \<le> of_int (2 * (a mod m))" by (simp only: of_int_le_iff)
    then have le: "(of_int m :: rat) + 1 \<le> 2 * of_int (a mod m)" by simp
    have "(of_int m + 1) / (2 * of_int m) \<le> 2 * of_int (a mod m) / (2 * (of_int m :: rat))"
      using le mrat by (intro divide_right_mono) simp_all
    then have bound: "(1 / 2 :: rat) + 1 / (2 * of_int m) \<le> of_int (a mod m) / of_int m"
      using mrat by (simp add: add_divide_distrib)
    have inv: "0 < 1 / (2 * (of_int m :: rat))" using mrat by simp
    have half: "1 / 2 < v - of_int \<lfloor>v\<rfloor>"
      using bound inv unfolding fr by linarith
    then have "round_half_even v = \<lfloor>v\<rfloor> + 1" by (simp add: round_half_even_def Let_def)
    moreover have "1 - (v - of_int \<lfloor>v\<rfloor>) \<le> 1 / 2 - 1 / (2 * of_int m)"
      using bound unfolding fr by linarith
    moreover have "v - of_int \<lfloor>v\<rfloor> < 1" by linarith
    ultimately show ?thesis unfolding v_def[symmetric] abs_le_iff by (simp; linarith)
  qed
qed

lemma nearest_unique:
  fixes a m r :: int
  assumes m: "0 < m" and small: "m < 2 ^ 44" and nt: "2 * (a mod m) \<noteq> m"
    and close: "\<bar>of_int r - of_int a / (of_int m :: rat)\<bar> \<le> 1 / 2 + 1 / 2 ^ 45"
  shows "r = round_half_even (of_int a / of_int m)"
proof -
  define v :: rat where "v = of_int a / of_int m"
  define n where "n = round_half_even v"
  have d: "\<bar>of_int n - v\<bar> \<le> 1 / 2 - 1 / (2 * of_int m)"
    unfolding n_def v_def by (rule rhe_mod_dist[OF m nt])
  have "(of_int m :: rat) < of_int (2 ^ 44)" using small by (simp only: of_int_less_iff)
  then have "2 * (of_int m :: rat) < 2 ^ 45" by simp
  moreover have mrat: "(0::rat) < of_int m" using m by simp
  ultimately have "1 / 2 ^ 45 < 1 / (2 * (of_int m :: rat))"
    by (simp add: field_simps)
  with d close have "\<bar>(of_int r :: rat) - of_int n\<bar> < 1"
    unfolding v_def[symmetric] by linarith
  then have "\<bar>(of_int (r - n) :: rat)\<bar> < of_int 1" by simp
  then have "\<bar>r - n\<bar> < 1" by (simp only: of_int_abs[symmetric] of_int_less_iff)
  then show ?thesis by (simp add: n_def v_def)
qed

lemma has_scores_ok: "has_scores p \<Longrightarrow> fields_ok p"
  by (cases p rule: has_scores.cases) simp_all

lemma sum_list_bounds:
  fixes f g :: "'a \<Rightarrow> int"
  assumes "\<forall>x\<in>set xs. 0 \<le> f x \<and> f x \<le> g x"
  shows "0 \<le> sum_list (map f xs) \<and> sum_list (map f xs) \<le> sum_list (map g xs)"
  using assms by (induction xs) auto

lemma tie_checks: "all_checks tie_details =
    [check_dict ''pass'' 100 100 ''first'' PNone ''low'', check_dict ''warning'' 15 100 ''second'' PNone ''low'']"
  by (simp add: all_checks_def tie_details_def)

lemma tie_fields:
  "score_fields (check_dict ''pass'' 100 100 ''first'' PNone ''low'') = (Some (PInt 100), Some (PInt 100))"
  "score_fields (check_dict ''warning'' 15 100 ''second'' PNone ''low'') = (Some (PInt 15), Some (PInt 100))"
  by (simp_all add: score_fields_def check_dict_def)

lemma tie_sums: "total_points tie_details = 115" "max_points tie_details = 200"
  by (simp_all add: total_points_def max_points_def tie_checks check_score_def check_max_score_def tie_fields)

lemma tie_quotient: "round_double (of_int 115 / of_int 200) = 2589569785738035 / 4503599627370496"
  by code_simp

lemma one_less_double_max: "(1::rat) < 2 ^ 1024" by (rule one_less_power) simp_all

lemma tie_product: "round_double (2589569785738035 / 4503599627370496 * 100) = 8092405580431359 / 140737488355328"
  by code_simp

lemma tie_rounded: "round_half_even (8092405580431359 / 140737488355328) = 57"
  by code_simp

lemma tie_score_of_sums: "score_of_sums 115 200 = Inr 57"
proof -
  have d: "int_true_divide 115 200 = Inr (2589569785738035 / 4503599627370496)"
    unfolding int_true_divide_def Let_def tie_quotient using one_less_double_max by simp
  have m: "float_mul (2589569785738035 / 4503599627370496) 100 = Fin (8092405580431359 / 140737488355328)"
    unfolding float_mul_def tie_product to_float_def using one_less_double_max by simp
  show ?thesis by (simp add: score_of_sums_def d m tie_rounded)
qed

section \<open>The overall score\<close>

lemma score_fields_check_dict:
  "score_fields (check_dict st sc mx msg rec pr) = (Some (PInt sc), Some (PInt mx))"
  by (simp add: score_fields_def check_dict_def)

lemma sample_fields:
  "map score_fields (all_checks sample_details) =
     [(Some (PInt 10), Some (PInt 10)), (Some (PInt 5), Some (PInt 10)), (Some (PInt 0), Some (PInt 10))]"
  by (simp add: all_checks_def sample_details_def score_fields_check_dict)

lemma regrouped_fields:
  "map score_fields (all_checks regrouped_details) =
     [(Some (PInt 0), Some (PInt 10)), (Some (PInt 5), Some (PInt 10)), (Some (PInt 10), Some (PInt 10))]"
  by (simp add: all_checks_def regrouped_details_def score_fields_check_dict)

lemma sample_sums: "total_points sample_details = 15" "max_points sample_details = 30"
proof -
  have "total_points d = sum_list (map (\<lambda>p. fst (fields_points p)) (map score_fields (all_checks d)))"
    "max_points d = sum_list (map (\<lambda>p. snd (fields_points p)) (map score_fields (all_checks d)))" for d
    by (simp_all add: total_points_def max_points_def check_score_def check_max_score_def comp_def)
  then show "total_points sample_details = 15" "max_points sample_details = 30"
    by (simp_all only: sample_fields) simp_all
qed

text \<open>
  Claim C1, as amended.  When every check carries an integer \<open>score\<close> and
  \<open>max_score\<close>, \<open>_calculate_overall_score\<close> returns 0 if the maximal scores
  sum to 0.  When moreover each score lies between 0 and its maximal score,
  it returns an integer between 0 and 100 that differs from
  \<open>100 * \<Sum>score / \<Sum>max_score\<close> by at most \<open>1/2 + 2\<^sup>-\<^sup>4\<^sup>5\<close>; and when the
  maximal scores sum to less than \<open>2\<^sup>4\<^sup>4\<close> and the exact percentage is not
  halfway between two integers, it returns the integer nearest to the exact
  percentage.  The quotient is computed in double precision before it is
  multiplied by 100, so at a percentage that is exactly halfway the result
  can be either neighbour.
\<close>

theorem overall_score_rounding:
  assumes carries: "\<forall>c\<in>set (all_checks d). has_scores (score_fields c)"
  shows "(max_points d = 0 \<longrightarrow> calculate_overall_score d = Inr 0) \<and>
         ((\<forall>c\<in>set (all_checks d). 0 \<le> check_score c \<and> check_score c \<le> check_max_score c) \<longrightarrow>
          (\<exists>r. calculate_overall_score d = Inr r \<and> 0 \<le> r \<and> r \<le> 100 \<and>
               (max_points d \<noteq> 0 \<longrightarrow>
                  \<bar>of_int r - 100 * of_int (total_points d) / (of_int (max_points d) :: rat)\<bar>
                    \<le> 1 / 2 + 1 / 2 ^ 45) \<and>
               (max_points d \<noteq> 0 \<and> max_points d < 2 ^ 44 \<and>
                2 * ((100 * total_points d) mod max_points d) \<noteq> max_points d \<longrightarrow>
                  r = round_half_even (100 * of_int (total_points d) / of_int (max_points d)))))"
proof -
  have ok: "list_all (\<lambda>c. fields_ok (score_fields c)) (all_checks d)"
    using carries by (simp add: list_all_iff has_scores_ok)
  have eq: "calculate_overall_score d = score_of_sums (total_points d) (max_points d)"
    by (rule calculate_overall_score_ok[OF ok])
  have zero: "max_points d = 0 \<longrightarrow> calculate_overall_score d = Inr 0"
    by (simp add: eq score_of_sums_def)
  have range: "\<exists>r. calculate_overall_score d = Inr r \<and> 0 \<le> r \<and> r \<le> 100 \<and>
               (max_points d \<noteq> 0 \<longrightarrow>
                  \<bar>of_int r - 100 * of_int (total_points d) / (of_int (max_points d) :: rat)\<bar>
                    \<le> 1 / 2 + 1 / 2 ^ 45) \<and>
               (max_points d \<noteq> 0 \<and> max_points d < 2 ^ 44 \<and>
                2 * ((100 * total_points d) mod max_points d) \<noteq> max_points d \<longrightarrow>
                  r = round_half_even (100 * of_int (total_points d) / of_int (max_points d)))"
    if bounded: "\<forall>c\<in>set (all_checks d). 0 \<le> check_score c \<and> check_score c \<le> check_max_score c"
  proof (cases "max_points d = 0")
    case True
    then show ?thesis using zero by simp
  next
    case False
    have tm: "0 \<le> total_points d \<and> total_points d \<le> max_points d"
      unfolding total_points_def max_points_def by (rule sum_list_bounds[OF bounded])
    then have mpos: "0 < max_points d" using False by simp
    from score_of_sums_bounds[of "total_points d" "max_points d"] tm False
    obtain r where r: "score_of_sums (total_points d) (max_points d) = Inr r" "0 \<le> r" "r \<le> 100"
      "\<bar>of_int r - 100 * of_int (total_points d) / (of_int (max_points d) :: rat)\<bar> \<le> 1 / 2 + 1 / 2 ^ 45"
      by blast
    have "r = round_half_even (100 * of_int (total_points d) / of_int (max_points d))"
      if "max_points d < 2 ^ 44" "2 * ((100 * total_points d) mod max_points d) \<noteq> max_points d"
      using nearest_unique[OF mpos that(1) that(2), of r] r(4) by simp
    with r show ?thesis by (auto simp: eq)
  qed
  from zero range show ?thesis by blast
qed


theorem overall_score_rounding_witness:
  "list_all (\<lambda>c. has_scores (score_fields c)) (all_checks sample_details) \<and>
   list_all (\<lambda>c. 0 \<le> check_score c \<and> check_score c \<le> check_max_score c) (all_checks sample_details) \<and>
   calculate_overall_score sample_details = Inr 50"
proof -
  have "\<forall>p\<in>set (map score_fields (all_checks sample_details)). has_scores p"
    unfolding sample_fields by simp
  then have h1: "\<forall>c\<in>set (all_checks sample_details). has_scores (score_fields c)" by simp
  have "\<forall>p\<in>set (map score_fields (all_checks sample_details)). 0 \<le> fst (fields_points p) \<and> fst (fields_points p) \<le> snd (fields_points p)"
    unfolding sample_fields by simp
  then have h2: "\<forall>c\<in>set (all_checks sample_details). 0 \<le> check_score c \<and> check_score c \<le> check_max_score c"
    by (simp add: check_score_def check_max_score_def)
  have rhe: "round_half_even (100 * of_int 15 / of_int 30) = 50" by code_simp
  from overall_score_rounding[OF h1] h2
  obtain r where r: "calculate_overall_score sample_details = Inr r"
    and exact: "max_points sample_details \<noteq> 0 \<and> max_points sample_details < 2 ^ 44 \<and>
      2 * ((100 * total_points sample_details) mod max_points sample_details) \<noteq> max_points sample_details \<longrightarrow>
      r = round_half_even (100 * of_int (total_points sample_details) / of_int (max_points sample_details))"
    by blast
  from exact have "r = 50" unfolding sample_sums rhe by simp
  with r h1 h2 show ?thesis by (simp add: list_all_iff)
qed

text \<open>
  The claim as it is written fails: for two checks with 100 of 100 and 15 of
  100 points the exact percentage is 57.5, which rounds to 58 (half up, and
  half to even), and the function returns 57.
\<close>

theorem overall_score_rounding_counterexample:
  "calculate_overall_score tie_details = Inr 57 \<and>
   total_points tie_details = 115 \<and> max_points tie_details = 200 \<and>
   round_half_even (100 * 115 / 200) = 58 \<and> round (100 * 115 / 200 :: rat) = 58"
proof -
  have ok: "list_all (\<lambda>c. fields_ok (score_fields c)) (all_checks tie_details)"
    by (simp add: tie_checks tie_fields)
  have "calculate_overall_score tie_details = Inr 57"
    using calculate_overall_score_ok[OF ok] by (simp add: tie_sums tie_score_of_sums)
  moreover have "round_half_even (100 * 115 / 200) = 58" by code_simp
  moreover have "round (100 * 115 / 200 :: rat) = 58" by (simp add: round_def)
  ultimately show ?thesis using tie_sums by simp
qed

text \<open>
  Claim C2.  The overall score depends only on the multiset of the
  (\<open>score\<close>, \<open>max_score\<close>) pairs of the checks: two \<open>details\<close> dictionaries
  whose checks carry the same pairs, in any order and grouping, get the same
  score.  (When a pair holds a value that is not an integer, both calls raise
  a \<open>TypeError\<close>.)
\<close>

theorem overall_score_permutation_invariant:
  assumes "mset (map score_fields (all_checks d1)) = mset (map score_fields (all_checks d2))"
  shows "(list_all (\<lambda>c. fields_ok (score_fields c)) (all_checks d1) \<longrightarrow>
            calculate_overall_score d1 = calculate_overall_score d2) \<and>
         (calculate_overall_score d1 = calculate_overall_score d2 \<or>
          (is_type_error (calculate_overall_score d1) \<and> is_type_error (calculate_overall_score d2)))"
proof (cases "list_all (\<lambda>c. fields_ok (score_fields c)) (all_checks d1)")
  case True
  with mset_fields_invariants(1)[OF assms]
  have "list_all (\<lambda>c. fields_ok (score_fields c)) (all_checks d2)" by simp
  with True mset_fields_invariants(2,3)[OF assms] show ?thesis
    by (simp add: calculate_overall_score_ok)
next
  case False
  with mset_fields_invariants(1)[OF assms]
  have "\<not> list_all (\<lambda>c. fields_ok (score_fields c)) (all_checks d2)" by simp
  with False show ?thesis by (simp add: calculate_overall_score_bad)
qed

theorem overall_score_permutation_invariant_witness:
  "mset (map score_fields (all_checks sample_details)) =
     mset (map score_fields (all_checks regrouped_details)) \<and>
   list_all (\<lambda>c. fields_ok (score_fields c)) (all_checks sample_details) \<and>
   calculate_overall_score sample_details = calculate_overall_score regrouped_details"
proof -
  have h: "mset (map score_fields (all_checks sample_details)) =
     mset (map score_fields (all_checks regrouped_details))"
    unfolding sample_fields regrouped_fields by (simp add: add_mset_commute)
  have "list_all fields_ok (map score_fields (all_checks sample_details))"
    unfolding sample_fields by simp
  then have ok: "list_all (\<lambda>c. fields_ok (score_fields c)) (all_checks sample_details)"
    by (simp add: list_all_iff)
  note eq = overall_score_permutation_invariant[OF h, THEN conjunct1, THEN mp, OF ok]
  from h ok eq show ?thesis by (intro conjI)
qed

section \<open>The cache\<close>

lemma float_less_asym: "float_less a b \<Longrightarrow> \<not> float_less b a"
  by (cases a; cases b) simp_all

lemma round_double_below_max:
  assumes "0 < x" "x \<le> 2 ^ 1023"
  shows "0 \<le> round_double x \<and> round_double x \<le> 2 ^ 1023"
proof -
  have "(2::rat) ^ 1023 = of_int (2 ^ 52) * pow2 (1023 - 52)"
    by (simp add: pow2_def flip: power_add)
  moreover have "(2::rat) ^ 1023 < pow2 (1023 + 1)"
    by (simp add: pow2_def)
  ultimately have "0 \<le> round_double x \<and> round_double x \<le> 2 ^ 1023 \<and>
      \<bar>round_double x - x\<bar> \<le> pow2 (1023 - 53)"
    using assms by (intro round_double_bound[where N = "2 ^ 52"]) simp_all
  then show ?thesis by simp
qed

lemma int_to_float_returns:
  assumes "0 < n" "n \<le> 2 ^ 1023"
  shows "\<exists>y. int_to_float n = Inr y"
proof -
  have "(of_int n :: rat) \<le> of_int (2 ^ 1023)" using assms(2) by (simp only: of_int_le_iff)
  then have "(of_int n :: rat) \<le> 2 ^ 1023" by simp
  moreover have "(0::rat) < of_int n" using assms(1) by simp
  ultimately have b: "0 \<le> round_double (of_int n) \<and> round_double (of_int n) \<le> 2 ^ 1023"
    by (intro round_double_below_max)
  have "(2::rat) ^ 1023 < 2 ^ 1024" by (rule power_strict_increasing) simp_all
  with b have "\<not> 2 ^ 1024 \<le> \<bar>round_double (of_int n)\<bar>" by (simp add: abs_if)
  then show ?thesis by (simp add: int_to_float_def Let_def)
qed

lemma round_double_60: "round_double (of_int 60) = 60"
  by code_simp

lemma round_double_1060: "round_double (1000 + 60) = 1060"
  by code_simp

lemma set_entry_a:
  "cache_set Map.empty 1000 1000 1000 ''a'' (7::nat) (Some 60) = Inr [''a'' \<mapsto> entry_a]"
proof -
  have big: "(60::rat) < 2 ^ 1024 \<and> (1060::rat) < 2 ^ 1024"
  proof -
    have "(1060::rat) < 2 ^ 11" by simp
    also have "\<dots> \<le> 2 ^ 1024" by (rule power_increasing) simp_all
    finally show ?thesis by simp
  qed
  have i: "int_to_float 60 = Inr 60"
    unfolding int_to_float_def Let_def round_double_60 using big by simp
  have a: "float_add 1000 60 = Fin 1060"
    unfolding float_add_def round_double_1060 to_float_def using big by simp
  show ?thesis by (simp add: cache_set_def i a entry_a_def)
qed

text \<open>
  Claim C9.  \<open>set(k, v, t)\<close> returns for every time to live \<open>t\<close> between 1
  and \<open>2\<^sup>1\<^sup>0\<^sup>2\<^sup>3\<close>; after it has returned, the cache holds an entry for \<open>k\<close>
  with the value \<open>v\<close>, a \<open>get(k)\<close> at a time strictly before the stored
  \<open>expires_at\<close> returns \<open>v\<close>, and a \<open>get(k)\<close> at a time with
  \<open>expires_at < now\<close> returns \<open>None\<close> and removes the entry, so that every
  later \<open>get(k)\<close> returns \<open>None\<close> as well.  A \<open>get\<close> of a key that the cache
  does not hold returns \<open>None\<close> and leaves the cache as it is.
\<close>

theorem cache_get_after_set:
  fixes c :: "'v cache"
  shows "(0 < ttl \<and> ttl \<le> 2 ^ 1023 \<longrightarrow> (\<exists>c'. cache_set c t1 t2 t3 k v (Some ttl) = Inr c')) \<and>
   (\<forall>c'. cache_set c t1 t2 t3 k v (Some ttl) = Inr c' \<longrightarrow>
      (\<exists>e. c' k = Some e \<and> entry_value e = v \<and>
        (\<forall>now now'. float_less (Fin now) (expires_at e) \<longrightarrow>
           fst (cache_get c' now now' k) = Some v) \<and>
        (\<forall>now now'. float_less (expires_at e) (Fin now) \<longrightarrow>
           fst (cache_get c' now now' k) = None \<and>
           snd (cache_get c' now now' k) = c'(k := None) \<and>
           (\<forall>later later'. fst (cache_get (snd (cache_get c' now now' k)) later later' k) = None)))) \<and>
   (\<forall>(c0 :: 'v cache) now now'. c0 k = None \<longrightarrow> cache_get c0 now now' k = (None, c0))"
proof -
  have returns: "\<exists>c'. cache_set c t1 t2 t3 k v (Some ttl) = Inr c'" if "0 < ttl" "ttl \<le> 2 ^ 1023"
  proof -
    from int_to_float_returns[OF that] obtain y where "int_to_float ttl = Inr y" by blast
    then show ?thesis by (simp add: cache_set_def)
  qed
  have after: "\<exists>e. c' k = Some e \<and> entry_value e = v \<and>
        (\<forall>now now'. float_less (Fin now) (expires_at e) \<longrightarrow>
           fst (cache_get c' now now' k) = Some v) \<and>
        (\<forall>now now'. float_less (expires_at e) (Fin now) \<longrightarrow>
           fst (cache_get c' now now' k) = None \<and>
           snd (cache_get c' now now' k) = c'(k := None) \<and>
           (\<forall>later later'. fst (cache_get (snd (cache_get c' now now' k)) later later' k) = None))"
    if set: "cache_set c t1 t2 t3 k v (Some ttl) = Inr c'" for c'
  proof -
    from set obtain tf where c': "c' = c(k \<mapsto> \<lparr>entry_value = v, created_at = t1, accessed_at = t2,
                             expires_at = float_add t3 tf\<rparr>)"
      by (auto simp: cache_set_def split: sum.splits)
    define e where "e = \<lparr>entry_value = v, created_at = t1, accessed_at = t2, expires_at = float_add t3 tf\<rparr>"
    have ck: "c' k = Some e" by (simp add: c' e_def)
    have ev: "entry_value e = v" by (simp add: e_def)
    have fresh: "fst (cache_get c' now now' k) = Some v"
      if "float_less (Fin now) (expires_at e)" for now now'
      using float_less_asym[OF that] by (simp add: cache_get_def ck ev)
    have expired: "fst (cache_get c' now now' k) = None \<and>
           snd (cache_get c' now now' k) = c'(k := None) \<and>
           (\<forall>later later'. fst (cache_get (snd (cache_get c' now now' k)) later later' k) = None)"
      if "float_less (expires_at e) (Fin now)" for now now'
      using that by (simp add: cache_get_def ck)
    from ck ev fresh expired show ?thesis by blast
  qed
  have never: "cache_get c0 now now' k = (None, c0)" if "c0 k = None" for c0 :: "'v cache" and now now'
    using that by (simp add: cache_get_def)
  from returns after never show ?thesis by blast
qed

theorem cache_get_after_set_witness:
  "cache_set Map.empty 1000 1000 1000 ''a'' (7::nat) (Some 60) = Inr [''a'' \<mapsto> entry_a] \<and>
   fst (cache_get [''a'' \<mapsto> entry_a] 1030 1031 ''a'') = Some 7 \<and>
   fst (cache_get [''a'' \<mapsto> entry_a] 2000 2001 ''a'') = None \<and>
   snd (cache_get [''a'' \<mapsto> entry_a] 2000 2001 ''a'') = [''a'' \<mapsto> entry_a](''a'' := None) \<and>
   fst (cache_get (snd (cache_get [''a'' \<mapsto> entry_a] 2000 2001 ''a'')) 1030 1031 ''a'') = None \<and>
   cache_get (Map.empty :: nat cache) 5 6 ''a'' = (None, Map.empty)"
proof -
  note T = cache_get_after_set[of 60 "Map.empty :: nat cache" 1000 1000 1000 "''a''" 7]
  note after = T[THEN conjunct2, THEN conjunct1, rule_format, OF set_entry_a]
  from after obtain e where E:
    "[''a'' \<mapsto> entry_a] ''a'' = Some e \<and> entry_value e = 7 \<and>
        (\<forall>now now'. float_less (Fin now) (expires_at e) \<longrightarrow>
           fst (cache_get [''a'' \<mapsto> entry_a] now now' ''a'') = Some 7) \<and>
        (\<forall>now now'. float_less (expires_at e) (Fin now) \<longrightarrow>
           fst (cache_get [''a'' \<mapsto> entry_a] now now' ''a'') = None \<and>
           snd (cache_get [''a'' \<mapsto> entry_a] now now' ''a'') = [''a'' \<mapsto> entry_a](''a'' := None) \<and>
           (\<forall>later later'. fst (cache_get (snd (cache_get [''a'' \<mapsto> entry_a] now now' ''a'')) later later' ''a'') = None))"
    by (rule exE)
  note e = E[THEN conjunct1]
  note fresh = E[THEN conjunct2, THEN conjunct2, THEN conjunct1, rule_format]
  note expired = E[THEN conjunct2, THEN conjunct2, THEN conjunct2, rule_format]
  from e have ex: "expires_at e = Fin 1060" by (auto simp: entry_a_def)
  have f: "float_less (Fin 1030) (expires_at e)" and x: "float_less (expires_at e) (Fin 2000)"
    by (simp_all add: ex)
  have never: "cache_get (Map.empty :: nat cache) 5 6 ''a'' = (None, Map.empty)"
    using T[THEN conjunct2, THEN conjunct2, rule_format, of Map.empty 5 6] by simp
  note a = fresh[OF f, of 1031]
  note b = expired[OF x, of 2001]
  note b1 = b[THEN conjunct1] and b2 = b[THEN conjunct2, THEN conjunct1]
    and b3 = b[THEN conjunct2, THEN conjunct2, rule_format, of 1030 1031]
  from set_entry_a a b1 b2 b3 never show ?thesis by (intro conjI)
qed

text \<open>
  Claim C10.  For every cache and key \<open>k\<close>, \<open>delete(k)\<close> returns true
  exactly when the cache holds \<open>k\<close>; then the entry of \<open>k\<close> is removed and
  the entry of every other key is unchanged.  When the cache does not hold
  \<open>k\<close> it returns false and the cache is unchanged.
\<close>

theorem cache_delete_frame:
  "fst (cache_delete c k) = (k \<in> dom c) \<and>
   (k \<in> dom c \<longrightarrow>
      snd (cache_delete c k) k = None \<and>
      dom (snd (cache_delete c k)) = dom c - {k} \<and>
      (\<forall>k'. k' \<noteq> k \<longrightarrow> snd (cache_delete c k) k' = c k')) \<and>
   (k \<notin> dom c \<longrightarrow> snd (cache_delete c k) = c)"
  by (auto simp: cache_delete_def dom_def)

theorem cache_delete_frame_witness:
  "fst (cache_delete [''a'' \<mapsto> entry_a, ''b'' \<mapsto> entry_b] ''a'') \<and>
   snd (cache_delete [''a'' \<mapsto> entry_a, ''b'' \<mapsto> entry_b] ''a'') ''a'' = None \<and>
   snd (cache_delete [''a'' \<mapsto> entry_a, ''b'' \<mapsto> entry_b] ''a'') ''b'' = Some entry_b \<and>
   fst (cache_delete [''a'' \<mapsto> entry_a] ''z'') = False \<and>
   snd (cache_delete [''a'' \<mapsto> entry_a] ''z'') = [''a'' \<mapsto> entry_a]"
  using cache_delete_frame [of "[''a'' \<mapsto> entry_a, ''b'' \<mapsto> entry_b]" "''a''"]
        cache_delete_frame [of "[''a'' \<mapsto> entry_a]" "''z''"]
  by simp

section \<open>The checks on the parsed document\<close>

lemma has_result_check_dict:
  "has_result (check_dict st sc mx msg rc pr) st' sc' mx' = (st = st' \<and> sc = sc' \<and> mx = mx')"
  by (simp add: has_result_def check_dict_def)

lemma message_check_dict:
  "map_of (check_dict st sc mx msg rc pr) ''message'' = Some (PStr msg)"
  by (simp add: check_dict_def)

lemma find_filter: "List.find P xs = (case filter P xs of [] \<Rightarrow> None | x # _ \<Rightarrow> Some x)"
  by (induction xs) simp_all

lemma find_tag_find_all:
  "find_tag n soup = (case find_all n soup of [] \<Rightarrow> None | t # _ \<Rightarrow> Some t)"
  by (simp add: find_tag_def find_all_def find_filter)

lemma length_filter_concat:
  "length (filter P (concat xss)) = sum_list (map (\<lambda>xs. length (filter P xs)) xss)"
  by (induction xss) simp_all

lemma length_find_all: "length (find_all n t) = count_elements n t"
proof (induction t)
  case (Tag name attrs children)
  have "length (filter (is_tag n) (descendants (Tag name attrs children))) =
        sum_list (map (\<lambda>c. length (filter (is_tag n) (c # descendants c))) children)"
    by (simp add: length_filter_concat comp_def)
  also have "\<dots> = sum_list (map (\<lambda>c. (if is_tag n c then 1 else 0) + count_elements n c) children)"
  proof (rule arg_cong[where f = sum_list], rule map_cong)
    fix c assume "c \<in> set children"
    from Tag.IH[OF this] show "length (filter (is_tag n) (c # descendants c)) =
        (if is_tag n c then 1 else 0) + count_elements n c"
      by (simp add: find_all_def)
  qed simp
  finally show ?case by (simp add: find_all_def)
next
  case (NavigableString s)
  show ?case by (simp add: find_all_def)
next
  case (Comment s)
  show ?case by (simp add: find_all_def)
qed

lemma find_all_Nil_iff: "find_all n t = [] \<longleftrightarrow> count_elements n t = 0"
proof -
  have "find_all n t = [] \<longleftrightarrow> length (find_all n t) = 0" by simp
  then show ?thesis by (simp only: length_find_all)
qed

lemma find_all_title_page:
  "find_all ''title'' (page_with_title t) = [Tag ''title'' [] [NavigableString t]]"
  by (simp add: find_all_def page_with_title_def)

lemma get_text_title: "get_text (Tag ''title'' [] [NavigableString t]) = t"
  by (simp add: get_text_def)

lemma length_strip_titles:
  "length (strip padded_title) = 60" "length (strip long_title) = 61" "length (strip blank_title) = 0"
  by code_simp+

lemma three_images_missing:
  "undescribed_images =
     filter (\<lambda>img. attr_get img ''alt'' = None \<or> attr_get img ''alt'' = Some [])
       (find_all ''img'' page_three_images) \<and> undescribed_images \<noteq> []"
  by (simp add: find_all_def page_three_images_def undescribed_images_def)

lemma three_images_message:
  "str_nat (length undescribed_images) @ '' out of '' @ str_nat (count_elements ''img'' page_three_images)
     @ '' images missing alt attributes'' = ''2 out of 3 images missing alt attributes''"
  by code_simp

lemma described_images_all:
  "0 < count_elements ''img'' page_described_images \<and>
   (\<forall>img\<in>set (find_all ''img'' page_described_images). \<exists>a. attr_get img ''alt'' = Some a \<and> a \<noteq> [])"
  by (simp add: find_all_def page_described_images_def)

text \<open>
  Claim C3.  The \<open>title_tag\<close> check of \<open>_check_seo_factors\<close> fails with
  0 of 10 when the document has no \<open>title\<close> element or the trimmed text of
  its first \<open>title\<close> element is empty, warns with 7 of 10 when the trimmed
  text is longer than 60 characters, and passes with 10 of 10 otherwise: a
  title of 60 characters passes, one of 61 warns.
\<close>

theorem title_tag_check_outcome:
  "\<exists>c. map_of (check_seo_factors url soup response) ''title_tag'' = Some c \<and>
     (count_elements ''title'' soup = 0 \<longrightarrow> has_result c ''fail'' 0 10) \<and>
     (\<forall>title rest. find_all ''title'' soup = title # rest \<longrightarrow>
        (length (strip (get_text title)) = 0 \<longrightarrow> has_result c ''fail'' 0 10) \<and>
        (60 < length (strip (get_text title)) \<longrightarrow> has_result c ''warning'' 7 10) \<and>
        (0 < length (strip (get_text title)) \<and> length (strip (get_text title)) \<le> 60 \<longrightarrow>
           has_result c ''pass'' 10 10))"
proof -
  have c: "map_of (check_seo_factors url soup response) ''title_tag'' = Some (title_tag_check soup)"
    by (simp add: check_seo_factors_def)
  have none: "has_result (title_tag_check soup) ''fail'' 0 10" if "count_elements ''title'' soup = 0"
  proof -
    from that have "find_all ''title'' soup = []" by (simp add: find_all_Nil_iff)
    then show ?thesis by (simp add: title_tag_check_def find_tag_find_all has_result_check_dict)
  qed
  have some: "(length (strip (get_text title)) = 0 \<longrightarrow> has_result (title_tag_check soup) ''fail'' 0 10) \<and>
        (60 < length (strip (get_text title)) \<longrightarrow> has_result (title_tag_check soup) ''warning'' 7 10) \<and>
        (0 < length (strip (get_text title)) \<and> length (strip (get_text title)) \<le> 60 \<longrightarrow>
           has_result (title_tag_check soup) ''pass'' 10 10)"
    if "find_all ''title'' soup = title # rest" for title rest
    using that by (simp add: title_tag_check_def find_tag_find_all has_result_check_dict Let_def)
  show ?thesis
  proof (intro exI[of _ "title_tag_check soup"] conjI allI)
    show "map_of (check_seo_factors url soup response) ''title_tag'' = Some (title_tag_check soup)"
      by (rule c)
    show "count_elements ''title'' soup = 0 \<longrightarrow> has_result (title_tag_check soup) ''fail'' 0 10"
      by (rule impI, rule none)
    show "find_all ''title'' soup = title # rest \<longrightarrow>
        (length (strip (get_text title)) = 0 \<longrightarrow> has_result (title_tag_check soup) ''fail'' 0 10) \<and>
        (60 < length (strip (get_text title)) \<longrightarrow> has_result (title_tag_check soup) ''warning'' 7 10) \<and>
        (0 < length (strip (get_text title)) \<and> length (strip (get_text title)) \<le> 60 \<longrightarrow>
           has_result (title_tag_check soup) ''pass'' 10 10)" for title rest
      by (rule impI, rule some)
  qed
qed

theorem title_tag_check_outcome_witness:
  "(\<exists>c. map_of (check_seo_factors ''https://example.com/''
            (page_with_title padded_title) sample_response) ''title_tag'' = Some c \<and>
        has_result c ''pass'' 10 10) \<and>
   (\<exists>c. map_of (check_seo_factors ''https://example.com/''
            (page_with_title long_title) sample_response) ''title_tag'' = Some c \<and>
        has_result c ''warning'' 7 10) \<and>
   (\<exists>c. map_of (check_seo_factors ''https://example.com/''
            (page_with_title blank_title) sample_response) ''title_tag'' = Some c \<and>
        has_result c ''fail'' 0 10) \<and>
   (\<exists>c. map_of (check_seo_factors ''https://example.com/''
            page_without_title sample_response) ''title_tag'' = Some c \<and>
        has_result c ''fail'' 0 10)"
proof -
  have step: "\<exists>c. map_of (check_seo_factors u (page_with_title t) r) ''title_tag'' = Some c \<and>
        (length (strip t) = 0 \<longrightarrow> has_result c ''fail'' 0 10) \<and>
        (60 < length (strip t) \<longrightarrow> has_result c ''warning'' 7 10) \<and>
        (0 < length (strip t) \<and> length (strip t) \<le> 60 \<longrightarrow> has_result c ''pass'' 10 10)" for u t r
  proof -
    from title_tag_check_outcome[of u "page_with_title t" r] obtain c where C:
      "map_of (check_seo_factors u (page_with_title t) r) ''title_tag'' = Some c \<and>
       (count_elements ''title'' (page_with_title t) = 0 \<longrightarrow> has_result c ''fail'' 0 10) \<and>
       (\<forall>title rest. find_all ''title'' (page_with_title t) = title # rest \<longrightarrow>
          (length (strip (get_text title)) = 0 \<longrightarrow> has_result c ''fail'' 0 10) \<and>
          (60 < length (strip (get_text title)) \<longrightarrow> has_result c ''warning'' 7 10) \<and>
          (0 < length (strip (get_text title)) \<and> length (strip (get_text title)) \<le> 60 \<longrightarrow>
             has_result c ''pass'' 10 10))"
      by (rule exE)
    note I = C[THEN conjunct2, THEN conjunct2, rule_format, OF find_all_title_page]
    note R = conjI[OF C[THEN conjunct1] I[unfolded get_text_title]]
    show ?thesis by (rule exI[of _ c]) (rule R)
  qed
  have a: "\<exists>c. map_of (check_seo_factors ''https://example.com/''
            (page_with_title padded_title) sample_response) ''title_tag'' = Some c \<and>
        has_result c ''pass'' 10 10"
  proof -
    from step[of "''https://example.com/''" padded_title sample_response] obtain c where C:
      "map_of (check_seo_factors ''https://example.com/'' (page_with_title padded_title) sample_response)
          ''title_tag'' = Some c \<and>
        (length (strip padded_title) = 0 \<longrightarrow> has_result c ''fail'' 0 10) \<and>
        (60 < length (strip padded_title) \<longrightarrow> has_result c ''warning'' 7 10) \<and>
        (0 < length (strip padded_title) \<and> length (strip padded_title) \<le> 60 \<longrightarrow>
           has_result c ''pass'' 10 10)"
      by (rule exE)
    have p: "0 < length (strip padded_title) \<and> length (strip padded_title) \<le> 60" by (simp add: length_strip_titles)
    note R = conjI[OF C[THEN conjunct1] C[THEN conjunct2, THEN conjunct2, THEN conjunct2, THEN mp, OF p]]
    show ?thesis by (rule exI[of _ c]) (rule R)
  qed
  have b: "\<exists>c. map_of (check_seo_factors ''https://example.com/''
            (page_with_title long_title) sample_response) ''title_tag'' = Some c \<and>
        has_result c ''warning'' 7 10"
  proof -
    from step[of "''https://example.com/''" long_title sample_response] obtain c where C:
      "map_of (check_seo_factors ''https://example.com/'' (page_with_title long_title) sample_response)
          ''title_tag'' = Some c \<and>
        (length (strip long_title) = 0 \<longrightarrow> has_result c ''fail'' 0 10) \<and>
        (60 < length (strip long_title) \<longrightarrow> has_result c ''warning'' 7 10) \<and>
        (0 < length (strip long_title) \<and> length (strip long_title) \<le> 60 \<longrightarrow>
           has_result c ''pass'' 10 10)"
      by (rule exE)
    have p: "60 < length (strip long_title)" by (simp add: length_strip_titles)
    note R = conjI[OF C[THEN conjunct1] C[THEN conjunct2, THEN conjunct2, THEN conjunct1, THEN mp, OF p]]
    show ?thesis by (rule exI[of _ c]) (rule R)
  qed
  have c: "\<exists>c. map_of (check_seo_factors ''https://example.com/''
            (page_with_title blank_title) sample_response) ''title_tag'' = Some c \<and>
        has_result c ''fail'' 0 10"
  proof -
    from step[of "''https://example.com/''" blank_title sample_response] obtain c where C:
      "map_of (check_seo_factors ''https://example.com/'' (page_with_title blank_title) sample_response)
          ''title_tag'' = Some c \<and>
        (length (strip blank_title) = 0 \<longrightarrow> has_result c ''fail'' 0 10) \<and>
        (60 < length (strip blank_title) \<longrightarrow> has_result c ''warning'' 7 10) \<and>
        (0 < length (strip blank_title) \<and> length (strip blank_title) \<le> 60 \<longrightarrow>
           has_result c ''pass'' 10 10)"
      by (rule exE)
    have p: "length (strip blank_title) = 0" by (simp add: length_strip_titles)
    note R = conjI[OF C[THEN conjunct1] C[THEN conjunct2, THEN conjunct1, THEN mp, OF p]]
    show ?thesis by (rule exI[of _ c]) (rule R)
  qed
  have d: "\<exists>c. map_of (check_seo_factors ''https://example.com/''
            page_without_title sample_response) ''title_tag'' = Some c \<and>
        has_result c ''fail'' 0 10"
  proof -
    from title_tag_check_outcome[of "''https://example.com/''" page_without_title sample_response]
    obtain c where C:
      "map_of (check_seo_factors ''https://example.com/'' page_without_title sample_response)
          ''title_tag'' = Some c \<and>
       (count_elements ''title'' page_without_title = 0 \<longrightarrow> has_result c ''fail'' 0 10) \<and>
       (\<forall>title rest. find_all ''title'' page_without_title = title # rest \<longrightarrow>
          (length (strip (get_text title)) = 0 \<longrightarrow> has_result c ''fail'' 0 10) \<and>
          (60 < length (strip (get_text title)) \<longrightarrow> has_result c ''warning'' 7 10) \<and>
          (0 < length (strip (get_text title)) \<and> length (strip (get_text title)) \<le> 60 \<longrightarrow>
             has_result c ''pass'' 10 10))"
      by (rule exE)
    have p: "count_elements ''title'' page_without_title = 0"
      by (simp add: page_without_title_def)
    note R = conjI[OF C[THEN conjunct1] C[THEN conjunct2, THEN conjunct1, THEN mp, OF p]]
    show ?thesis by (rule exI[of _ c]) (rule R)
  qed
  from a b c d show ?thesis by (intro conjI)
qed

text \<open>
  Claim C6.  The \<open>h1_tag\<close> check of \<open>_check_seo_factors\<close> fails with 0 of
  10 when the document has no \<open>h1\<close> element, warns with 5 of 10 when it has
  more than one, and passes with 10 of 10 when it has exactly one.
\<close>

theorem h1_tag_check_outcome:
  "\<exists>c. map_of (check_seo_factors url soup response) ''h1_tag'' = Some c \<and>
     (count_elements ''h1'' soup = 0 \<longrightarrow> has_result c ''fail'' 0 10) \<and>
     (1 < count_elements ''h1'' soup \<longrightarrow> has_result c ''warning'' 5 10) \<and>
     (count_elements ''h1'' soup = 1 \<longrightarrow> has_result c ''pass'' 10 10)"
proof -
  have c: "map_of (check_seo_factors url soup response) ''h1_tag'' = Some (h1_tag_check soup)"
    by (simp add: check_seo_factors_def)
  have "(count_elements ''h1'' soup = 0 \<longrightarrow> has_result (h1_tag_check soup) ''fail'' 0 10) \<and>
     (1 < count_elements ''h1'' soup \<longrightarrow> has_result (h1_tag_check soup) ''warning'' 5 10) \<and>
     (count_elements ''h1'' soup = 1 \<longrightarrow> has_result (h1_tag_check soup) ''pass'' 10 10)"
    by (simp add: h1_tag_check_def Let_def find_all_Nil_iff length_find_all has_result_check_dict)
  with c show ?thesis by (intro exI[of _ "h1_tag_check soup"] conjI) simp_all
qed

theorem h1_tag_check_outcome_witness:
  "(\<exists>c. map_of (check_seo_factors ''https://example.com/'' page_without_title sample_response) ''h1_tag'' = Some c \<and>
        has_result c ''fail'' 0 10) \<and>
   (\<exists>c. map_of (check_seo_factors ''https://example.com/'' page_two_h1 sample_response) ''h1_tag'' = Some c \<and>
        has_result c ''warning'' 5 10) \<and>
   (\<exists>c. map_of (check_seo_factors ''https://example.com/'' (page_with_title ''Home'') sample_response) ''h1_tag'' = Some c \<and>
        has_result c ''pass'' 10 10)"
proof -
  have n0: "count_elements ''h1'' page_without_title = 0"
    by (simp add: page_without_title_def)
  have n2: "count_elements ''h1'' page_two_h1 = 2"
    by (simp add: page_two_h1_def)
  have n1: "count_elements ''h1'' (page_with_title ''Home'') = 1"
    by (simp add: page_with_title_def)
  from h1_tag_check_outcome[of "''https://example.com/''" page_without_title sample_response]
  have a: "\<exists>c. map_of (check_seo_factors ''https://example.com/'' page_without_title sample_response) ''h1_tag'' = Some c \<and>
        has_result c ''fail'' 0 10"
    unfolding n0 by simp
  from h1_tag_check_outcome[of "''https://example.com/''" page_two_h1 sample_response]
  have b: "\<exists>c. map_of (check_seo_factors ''https://example.com/'' page_two_h1 sample_response) ''h1_tag'' = Some c \<and>
        has_result c ''warning'' 5 10"
    unfolding n2 by simp
  from h1_tag_check_outcome[of "''https://example.com/''" "page_with_title ''Home''" sample_response]
  have c: "\<exists>c. map_of (check_seo_factors ''https://example.com/'' (page_with_title ''Home'') sample_response) ''h1_tag'' = Some c \<and>
        has_result c ''pass'' 10 10"
    unfolding n1 by simp
  from a b c show ?thesis by (intro conjI)
qed

text \<open>
  Claim C5.  The \<open>image_alt_attributes\<close> check of
  \<open>_check_content_factors\<close> is \<open>info\<close> with 5 of 5 when the document has no
  \<open>img\<close> element, whatever else it contains; it passes with 10 of 10 when
  every \<open>img\<close> element has a non-empty \<open>alt\<close> attribute; otherwise it warns
  with 5 of 10 and its message gives the number of images whose \<open>alt\<close> is
  missing or empty.
\<close>

theorem image_alt_check_outcome:
  "\<exists>c. map_of (check_content_factors soup) ''image_alt_attributes'' = Some c \<and>
     (count_elements ''img'' soup = 0 \<longrightarrow> has_result c ''info'' 5 5) \<and>
     (0 < count_elements ''img'' soup \<and>
      (\<forall>img\<in>set (find_all ''img'' soup). \<exists>a. attr_get img ''alt'' = Some a \<and> a \<noteq> []) \<longrightarrow>
        has_result c ''pass'' 10 10) \<and>
     (\<forall>missing. missing = filter (\<lambda>img. attr_get img ''alt'' = None \<or> attr_get img ''alt'' = Some [])
                            (find_all ''img'' soup) \<and> missing \<noteq> [] \<longrightarrow>
        has_result c ''warning'' 5 10 \<and>
        map_of c ''message'' =
          Some (PStr (str_nat (length missing) @ '' out of '' @ str_nat (count_elements ''img'' soup)
                        @ '' images missing alt attributes'')))"
proof -
  let ?imgs = "find_all ''img'' soup"
  let ?c = "image_alt_check soup"
  have c: "map_of (check_content_factors soup) ''image_alt_attributes'' = Some ?c"
    by (simp add: check_content_factors_def)
  have wa: "without_alt = (\<lambda>img. attr_get img ''alt'' = None \<or> attr_get img ''alt'' = Some [])"
    by (auto simp: without_alt_def fun_eq_iff split: option.splits)
  have info: "has_result ?c ''info'' 5 5" if "count_elements ''img'' soup = 0"
    using that by (simp add: image_alt_check_def Let_def find_all_Nil_iff has_result_check_dict)
  have pass: "has_result ?c ''pass'' 10 10"
    if "0 < count_elements ''img'' soup"
      and "\<forall>img\<in>set ?imgs. \<exists>a. attr_get img ''alt'' = Some a \<and> a \<noteq> []"
  proof -
    from that(2) have "filter without_alt ?imgs = []"
      by (auto simp: filter_empty_conv without_alt_def)
    with that(1) show ?thesis
      by (simp add: image_alt_check_def Let_def find_all_Nil_iff has_result_check_dict)
  qed
  have warn: "has_result ?c ''warning'' 5 10 \<and>
        map_of ?c ''message'' =
          Some (PStr (str_nat (length missing) @ '' out of '' @ str_nat (count_elements ''img'' soup)
                        @ '' images missing alt attributes''))"
    if m: "missing = filter (\<lambda>img. attr_get img ''alt'' = None \<or> attr_get img ''alt'' = Some []) ?imgs"
      and ne: "missing \<noteq> []" for missing
  proof -
    from m have fm: "filter without_alt ?imgs = missing" by (simp add: wa)
    from ne fm have "?imgs \<noteq> []" by auto
    then have pos: "count_elements ''img'' soup \<noteq> 0" by (simp add: find_all_Nil_iff)
    show ?thesis
      unfolding image_alt_check_def Let_def fm
      using pos ne by (simp add: has_result_check_dict message_check_dict find_all_Nil_iff length_find_all)
  qed
  show ?thesis
  proof (intro exI[of _ ?c] conjI allI)
    show "map_of (check_content_factors soup) ''image_alt_attributes'' = Some ?c" by (rule c)
    show "count_elements ''img'' soup = 0 \<longrightarrow> has_result ?c ''info'' 5 5"
      by (rule impI, rule info)
    show "0 < count_elements ''img'' soup \<and>
      (\<forall>img\<in>set ?imgs. \<exists>a. attr_get img ''alt'' = Some a \<and> a \<noteq> []) \<longrightarrow>
        has_result ?c ''pass'' 10 10"
    proof (rule impI, elim conjE)
      assume "0 < count_elements ''img'' soup"
        and "\<forall>img\<in>set ?imgs. \<exists>a. attr_get img ''alt'' = Some a \<and> a \<noteq> []"
      then show "has_result ?c ''pass'' 10 10" by (rule pass)
    qed
    show "missing = filter (\<lambda>img. attr_get img ''alt'' = None \<or> attr_get img ''alt'' = Some []) ?imgs
           \<and> missing \<noteq> [] \<longrightarrow>
        has_result ?c ''warning'' 5 10 \<and>
        map_of ?c ''message'' =
          Some (PStr (str_nat (length missing) @ '' out of '' @ str_nat (count_elements ''img'' soup)
                        @ '' images missing alt attributes''))" for missing
    proof (rule impI, elim conjE)
      assume "missing = filter (\<lambda>img. attr_get img ''alt'' = None \<or> attr_get img ''alt'' = Some []) ?imgs"
        and "missing \<noteq> []"
      then show "has_result ?c ''warning'' 5 10 \<and>
        map_of ?c ''message'' =
          Some (PStr (str_nat (length missing) @ '' out of '' @ str_nat (count_elements ''img'' soup)
                        @ '' images missing alt attributes''))" by (rule warn)
    qed
  qed
qed

theorem image_alt_check_outcome_witness:
  "(\<exists>c. map_of (check_content_factors page_without_title) ''image_alt_attributes'' = Some c \<and>
        has_result c ''info'' 5 5) \<and>
   (\<exists>c. map_of (check_content_factors page_described_images) ''image_alt_attributes'' = Some c \<and>
        has_result c ''pass'' 10 10) \<and>
   (\<exists>c. map_of (check_content_factors page_three_images) ''image_alt_attributes'' = Some c \<and>
        has_result c ''warning'' 5 10 \<and>
        map_of c ''message'' = Some (PStr ''2 out of 3 images missing alt attributes''))"
proof -
  have a: "\<exists>c. map_of (check_content_factors page_without_title) ''image_alt_attributes'' = Some c \<and>
        has_result c ''info'' 5 5"
  proof -
    from image_alt_check_outcome[of page_without_title] obtain c where C:
      "map_of (check_content_factors page_without_title) ''image_alt_attributes'' = Some c \<and>
       (count_elements ''img'' page_without_title = 0 \<longrightarrow> has_result c ''info'' 5 5) \<and>
       (0 < count_elements ''img'' page_without_title \<and>
        (\<forall>img\<in>set (find_all ''img'' page_without_title). \<exists>a. attr_get img ''alt'' = Some a \<and> a \<noteq> []) \<longrightarrow>
          has_result c ''pass'' 10 10) \<and>
       (\<forall>missing. missing = filter (\<lambda>img. attr_get img ''alt'' = None \<or> attr_get img ''alt'' = Some [])
                              (find_all ''img'' page_without_title) \<and> missing \<noteq> [] \<longrightarrow>
          has_result c ''warning'' 5 10 \<and>
          map_of c ''message'' =
            Some (PStr (str_nat (length missing) @ '' out of '' @ str_nat (count_elements ''img'' page_without_title)
                          @ '' images missing alt attributes'')))"
      by (rule exE)
    have p: "count_elements ''img'' page_without_title = 0"
      by (simp add: page_without_title_def)
    note R = conjI[OF C[THEN conjunct1] C[THEN conjunct2, THEN conjunct1, THEN mp, OF p]]
    show ?thesis by (rule exI[of _ c]) (rule R)
  qed
  have b: "\<exists>c. map_of (check_content_factors page_described_images) ''image_alt_attributes'' = Some c \<and>
        has_result c ''pass'' 10 10"
  proof -
    from image_alt_check_outcome[of page_described_images] obtain c where C:
      "map_of (check_content_factors page_described_images) ''image_alt_attributes'' = Some c \<and>
       (count_elements ''img'' page_described_images = 0 \<longrightarrow> has_result c ''info'' 5 5) \<and>
       (0 < count_elements ''img'' page_described_images \<and>
        (\<forall>img\<in>set (find_all ''img'' page_described_images). \<exists>a. attr_get img ''alt'' = Some a \<and> a \<noteq> []) \<longrightarrow>
          has_result c ''pass'' 10 10) \<and>
       (\<forall>missing. missing = filter (\<lambda>img. attr_get img ''alt'' = None \<or> attr_get img ''alt'' = Some [])
                              (find_all ''img'' page_described_images) \<and> missing \<noteq> [] \<longrightarrow>
          has_result c ''warning'' 5 10 \<and>
          map_of c ''message'' =
            Some (PStr (str_nat (length missing) @ '' out of '' @ str_nat (count_elements ''img'' page_described_images)
                          @ '' images missing alt attributes'')))"
      by (rule exE)
    note R = conjI[OF C[THEN conjunct1]
        C[THEN conjunct2, THEN conjunct2, THEN conjunct1, THEN mp, OF described_images_all]]
    show ?thesis by (rule exI[of _ c]) (rule R)
  qed
  have c: "\<exists>c. map_of (check_content_factors page_three_images) ''image_alt_attributes'' = Some c \<and>
        has_result c ''warning'' 5 10 \<and>
        map_of c ''message'' = Some (PStr ''2 out of 3 images missing alt attributes'')"
  proof -
    from image_alt_check_outcome[of page_three_images] obtain c where C:
      "map_of (check_content_factors page_three_images) ''image_alt_attributes'' = Some c \<and>
       (count_elements ''img'' page_three_images = 0 \<longrightarrow> has_result c ''info'' 5 5) \<and>
       (0 < count_elements ''img'' page_three_images \<and>
        (\<forall>img\<in>set (find_all ''img'' page_three_images). \<exists>a. attr_get img ''alt'' = Some a \<and> a \<noteq> []) \<longrightarrow>
          has_result c ''pass'' 10 10) \<and>
       (\<forall>missing. missing = filter (\<lambda>img. attr_get img ''alt'' = None \<or> attr_get img ''alt'' = Some [])
                              (find_all ''img'' page_three_images) \<and> missing \<noteq> [] \<longrightarrow>
          has_result c ''warning'' 5 10 \<and>
          map_of c ''message'' =
            Some (PStr (str_nat (length missing) @ '' out of '' @ str_nat (count_elements ''img'' page_three_images)
                          @ '' images missing alt attributes'')))"
      by (rule exE)
    note W = C[THEN conjunct2, THEN conjunct2, THEN conjunct2, rule_format, OF three_images_missing]
    note R = conjI[OF C[THEN conjunct1] W[unfolded three_images_message]]
    show ?thesis by (rule exI[of _ c]) (rule R)
  qed
  from a b c show ?thesis by (intro conjI)
qed

section \<open>The analysis of a website\<close>

lemma well_scored_check_dict:
  "0 \<le> s \<Longrightarrow> s \<le> m \<Longrightarrow> well_scored (check_dict st s m msg rc pr)"
  by (simp add: well_scored_def score_fields_check_dict check_score_def check_max_score_def)

lemma well_scored_seo:
  "well_scored (title_tag_check soup)" "well_scored (meta_description_check soup)"
  "well_scored (h1_tag_check soup)"
  by (simp_all add: title_tag_check_def meta_description_check_def h1_tag_check_def Let_def
      well_scored_check_dict split: option.splits)

lemma well_scored_technical:
  "well_scored (ssl_certificate_check url)" "well_scored (robots_txt_check b)"
  "well_scored (xml_sitemap_check b)"
  by (simp_all add: ssl_certificate_check_def robots_txt_check_def xml_sitemap_check_def
      well_scored_check_dict)

lemma well_scored_content:
  "well_scored (image_alt_check soup)" "well_scored (content_length_check soup)"
  by (simp_all add: image_alt_check_def content_length_check_def Let_def well_scored_check_dict)

lemma well_scored_performance:
  "well_scored (page_load_time_check ms)" "well_scored (gzip_compression_check response)"
  "well_scored (viewport_meta_tag_check soup)"
  by (simp_all add: page_load_time_check_def gzip_compression_check_def viewport_meta_tag_check_def
      well_scored_check_dict split: option.splits)

lemma overall_score_returns:
  assumes "\<forall>c\<in>set (all_checks d). well_scored c"
  shows "\<exists>r. calculate_overall_score d = Inr r \<and> 0 \<le> r \<and> r \<le> 100"
proof -
  have ok: "list_all (\<lambda>c. fields_ok (score_fields c)) (all_checks d)"
    using assms by (simp add: list_all_iff well_scored_def has_scores_ok)
  have eq: "calculate_overall_score d = score_of_sums (total_points d) (max_points d)"
    by (rule calculate_overall_score_ok[OF ok])
  show ?thesis
  proof (cases "max_points d = 0")
    case True
    then show ?thesis by (simp add: eq score_of_sums_def)
  next
    case False
    have "\<forall>c\<in>set (all_checks d). 0 \<le> check_score c \<and> check_score c \<le> check_max_score c"
      using assms by (simp add: well_scored_def)
    then have "0 \<le> total_points d \<and> total_points d \<le> max_points d"
      unfolding total_points_def max_points_def by (rule sum_list_bounds)
    with score_of_sums_bounds[of "total_points d" "max_points d"] False
    show ?thesis unfolding eq by blast
  qed
qed

lemma checked_details_well_scored:
  "\<forall>c\<in>set (all_checks (checked_details e url soup response)). well_scored c"
  by (simp add: checked_details_def all_checks_def check_seo_factors_def check_technical_factors_def
      check_content_factors_def check_performance_factors_def check_mobile_factors_def
      well_scored_seo well_scored_technical well_scored_content well_scored_performance)

lemma checked_details_score:
  "\<exists>r. calculate_overall_score (checked_details e url soup response) = Inr r \<and> 0 \<le> r \<and> r \<le> 100"
  by (rule overall_score_returns[OF checked_details_well_scored])

lemma try_body_eq:
  "try_body e url =
     and_then (session_get e url) (\<lambda>response.
     and_then (raise_for_status response) (\<lambda>_.
     and_then (analyze_seo_metrics e url response (parse_html e (content response)) (load_time_ms e)) (\<lambda>seo.
     and_then (analyze_performance e url response (load_time_ms e)) (\<lambda>perf.
     and_then (analyze_security e url response) (\<lambda>sec.
     and_then (calculate_overall_score (checked_details e url (parse_html e (content response)) response)) (\<lambda>score.
       Inr \<lparr>overall_score = score,
            page_title = get_page_title (parse_html e (content response)),
            meta_description = get_meta_description (parse_html e (content response)),
            details = checked_details e url (parse_html e (content response)) response,
            seo_metrics = seo,
            performance_metrics = perf,
            security_scan = sec\<rparr>))))))"
  by (simp add: try_body_def Let_def checked_details_def)

lemma and_then_Inr: "and_then r f = Inr y \<longleftrightarrow> (\<exists>x. r = Inr x \<and> f x = Inr y)"
  by (cases r) (simp_all add: and_then_def)

lemma try_body_returns:
  assumes "try_body e url = Inr r"
  shows "\<exists>response. session_get e url = Inr response \<and> raise_for_status response = Inr () \<and>
           details r = checked_details e url (parse_html e (content response)) response"
proof -
  from assms have "\<exists>response seo perf sec score.
      session_get e url = Inr response \<and> raise_for_status response = Inr () \<and>
      r = \<lparr>overall_score = score,
            page_title = get_page_title (parse_html e (content response)),
            meta_description = get_meta_description (parse_html e (content response)),
            details = checked_details e url (parse_html e (content response)) response,
            seo_metrics = seo,
            performance_metrics = perf,
            security_scan = sec\<rparr>"
    unfolding try_body_eq and_then_Inr by auto
  then obtain response seo perf sec score where g: "session_get e url = Inr response"
    and s: "raise_for_status response = Inr ()"
    and r: "r = \<lparr>overall_score = score,
            page_title = get_page_title (parse_html e (content response)),
            meta_description = get_meta_description (parse_html e (content response)),
            details = checked_details e url (parse_html e (content response)) response,
            seo_metrics = seo,
            performance_metrics = perf,
            security_scan = sec\<rparr>"
    by auto
  from r have "details r = checked_details e url (parse_html e (content response)) response" by simp
  with g s show ?thesis by (intro exI[of _ response] conjI)
qed

lemma analyze_website_Inr: "analyze_website e url = Inr r \<longleftrightarrow> try_body e url = Inr r"
  by (cases "try_body e url" rule: sum.exhaust[case_product error.exhaust])
     (auto simp: analyze_website_def split: sum.splits error.splits)

lemma probe_urls_two:
  "probe_urls get [u1, u2] =
     (case get u1 of
        Inl ex \<Rightarrow> Inl ex
      | Inr r1 \<Rightarrow> if status_code r1 = 200 then Inr True
                  else (case get u2 of Inl ex \<Rightarrow> Inl ex | Inr r2 \<Rightarrow> Inr (status_code r2 = 200)))"
  by (simp split: sum.splits)

lemma example_urls:
  "scheme example_parsed @ ''://'' @ netloc example_parsed @ ''/sitemap.xml'' = ''http://example.com/sitemap.xml''"
  "scheme example_parsed @ ''://'' @ netloc example_parsed @ ''/sitemap_index.xml'' = ''http://example.com/sitemap_index.xml''"
  by (simp_all add: example_parsed_def)

lemma flaky_env_probes:
  "urlparse flaky_env ''http://example.com/'' = Inr example_parsed"
  "session_get flaky_env ''http://example.com/sitemap.xml'' = Inl (RequestException ''Read timed out'')"
  "session_get flaky_env ''http://example.com/sitemap_index.xml'' = Inr sample_response"
  by (simp_all add: flaky_env_def redirect_env_def)

lemma index_env_probes:
  "urlparse index_env ''http://example.com/'' = Inr example_parsed"
  "session_get index_env ''http://example.com/sitemap.xml'' = Inr not_found_response"
  "session_get index_env ''http://example.com/sitemap_index.xml'' = Inr sample_response"
  by (simp_all add: index_env_def redirect_env_def)

lemma example_statuses:
  "returns_200 (Inr sample_response)" "\<not> returns_200 (Inr not_found_response)"
  "\<not> returns_200 (Inl (RequestException ''Read timed out''))"
  by (simp_all add: returns_200_def sample_response_def not_found_response_def)

text \<open>
  Claim C7, as amended.  \<open>_check_sitemap\<close> never raises.  It returns true
  exactly when the probe of \<open>/sitemap.xml\<close> returns status 200, or that
  probe returns another status and the probe of \<open>/sitemap_index.xml\<close>
  returns status 200; when \<open>urlparse\<close> or the first probe raises it returns
  false, and the second probe is not made.  The \<open>xml_sitemap\<close> check passes
  with 5 of 5 exactly when it returns true and warns with 0 of 5 otherwise.
\<close>

theorem check_sitemap_outcome:
  "(\<forall>ex. urlparse e url = Inl ex \<longrightarrow> \<not> check_sitemap e url) \<and>
   (\<forall>p. urlparse e url = Inr p \<longrightarrow>
      check_sitemap e url =
        (returns_200 (session_get e (scheme p @ ''://'' @ netloc p @ ''/sitemap.xml'')) \<or>
         \<not> isl (session_get e (scheme p @ ''://'' @ netloc p @ ''/sitemap.xml'')) \<and>
         returns_200 (session_get e (scheme p @ ''://'' @ netloc p @ ''/sitemap_index.xml'')))) \<and>
   (\<exists>c. map_of (check_technical_factors e url soup response) ''xml_sitemap'' = Some c \<and>
      (check_sitemap e url \<longrightarrow> has_result c ''pass'' 5 5) \<and>
      (\<not> check_sitemap e url \<longrightarrow> has_result c ''warning'' 0 5))"
proof (intro conjI allI impI)
  fix ex assume "urlparse e url = Inl ex"
  then show "\<not> check_sitemap e url" by (simp add: check_sitemap_def)
next
  fix p assume p: "urlparse e url = Inr p"
  let ?o1 = "session_get e (scheme p @ ''://'' @ netloc p @ ''/sitemap.xml'')"
  let ?o2 = "session_get e (scheme p @ ''://'' @ netloc p @ ''/sitemap_index.xml'')"
  have "check_sitemap e url =
      (case probe_urls (session_get e) (sitemap_urls p) of Inl ex \<Rightarrow> False | Inr b \<Rightarrow> b)"
    by (simp add: check_sitemap_def p)
  also have "\<dots> = (returns_200 ?o1 \<or> \<not> isl ?o1 \<and> returns_200 ?o2)"
    unfolding sitemap_urls_def probe_urls_two
    by (cases ?o1; cases ?o2) (simp_all add: returns_200_def)
  finally show "check_sitemap e url = (returns_200 ?o1 \<or> \<not> isl ?o1 \<and> returns_200 ?o2)" .
next
  have c: "map_of (check_technical_factors e url soup response) ''xml_sitemap'' =
      Some (xml_sitemap_check (check_sitemap e url))"
    by (simp add: check_technical_factors_def)
  have a: "check_sitemap e url \<longrightarrow> has_result (xml_sitemap_check (check_sitemap e url)) ''pass'' 5 5"
    by (simp add: xml_sitemap_check_def has_result_check_dict)
  have b: "\<not> check_sitemap e url \<longrightarrow> has_result (xml_sitemap_check (check_sitemap e url)) ''warning'' 0 5"
    by (simp add: xml_sitemap_check_def has_result_check_dict)
  note R = conjI[OF c conjI[OF a b]]
  show "\<exists>c. map_of (check_technical_factors e url soup response) ''xml_sitemap'' = Some c \<and>
      (check_sitemap e url \<longrightarrow> has_result c ''pass'' 5 5) \<and>
      (\<not> check_sitemap e url \<longrightarrow> has_result c ''warning'' 0 5)"
    by (rule exI[of _ "xml_sitemap_check (check_sitemap e url)"]) (rule R)
qed

theorem check_sitemap_outcome_witness:
  "urlparse index_env ''http://example.com/'' = Inr example_parsed \<and>
   check_sitemap index_env ''http://example.com/'' = True \<and>
   (\<exists>c. map_of (check_technical_factors index_env ''http://example.com/'' page_without_title sample_response)
          ''xml_sitemap'' = Some c \<and> has_result c ''pass'' 5 5)"
proof -
  note T = check_sitemap_outcome[of index_env "''http://example.com/''" page_without_title sample_response]
  note S = T[THEN conjunct2, THEN conjunct1, rule_format, OF index_env_probes(1)]
  have s: "check_sitemap index_env ''http://example.com/'' = True"
    unfolding S example_urls index_env_probes by (simp add: example_statuses)
  from T[THEN conjunct2, THEN conjunct2] obtain c where C:
    "map_of (check_technical_factors index_env ''http://example.com/'' page_without_title sample_response)
          ''xml_sitemap'' = Some c \<and>
      (check_sitemap index_env ''http://example.com/'' \<longrightarrow> has_result c ''pass'' 5 5) \<and>
      (\<not> check_sitemap index_env ''http://example.com/'' \<longrightarrow> has_result c ''warning'' 0 5)"
    by (rule exE)
  from s have s': "check_sitemap index_env ''http://example.com/''" by simp
  note R = conjI[OF C[THEN conjunct1] C[THEN conjunct2, THEN conjunct1, THEN mp, OF s']]
  have "\<exists>c. map_of (check_technical_factors index_env ''http://example.com/'' page_without_title sample_response)
          ''xml_sitemap'' = Some c \<and> has_result c ''pass'' 5 5"
    by (rule exI[of _ c]) (rule R)
  with index_env_probes(1) s show ?thesis by (intro conjI)
qed

text \<open>
  The claim as it is written fails: when the probe of \<open>/sitemap.xml\<close>
  raises, the function returns false although the probe of
  \<open>/sitemap_index.xml\<close> returns status 200.
\<close>

theorem check_sitemap_outcome_counterexample:
  "urlparse flaky_env ''http://example.com/'' = Inr example_parsed \<and>
   session_get flaky_env ''http://example.com/sitemap.xml'' = Inl (RequestException ''Read timed out'') \<and>
   returns_200 (session_get flaky_env ''http://example.com/sitemap_index.xml'') \<and>
   check_sitemap flaky_env ''http://example.com/'' = False"
proof -
  have "check_sitemap flaky_env ''http://example.com/'' = False"
    by (simp add: check_sitemap_def sitemap_urls_def example_parsed_def flaky_env_def redirect_env_def)
  then show ?thesis by (simp add: flaky_env_probes example_statuses)
qed

lemma analyze_website_returns:
  assumes g: "session_get e url = Inr response" and s: "raise_for_status response = Inr ()"
    and m: "analyze_seo_metrics e url response (parse_html e (content response)) (load_time_ms e) = Inr seo"
    and p: "analyze_performance e url response (load_time_ms e) = Inr perf"
    and c: "analyze_security e url response = Inr sec"
  shows "\<exists>r. analyze_website e url = Inr r"
proof -
  from checked_details_score[of e url "parse_html e (content response)" response]
  obtain score where sc: "calculate_overall_score (checked_details e url (parse_html e (content response)) response) = Inr score"
    by (elim exE conjE)
  have "\<exists>r. try_body e url = Inr r"
    unfolding try_body_eq by (simp add: and_then_def g s m p c sc)
  then show ?thesis by (simp add: analyze_website_Inr)
qed

lemma analyzed_check_ssl:
  assumes "analyze_website e url = Inr r"
  shows "analyzed_check e url ''technical'' ''ssl_certificate'' = Some (ssl_certificate_check url)"
proof -
  from assms have "try_body e url = Inr r" by (simp add: analyze_website_Inr)
  from try_body_returns[OF this] obtain response where
    d: "details r = checked_details e url (parse_html e (content response)) response"
    by (elim exE conjE)
  have t: "map_of (details r) ''technical'' =
      Some (check_technical_factors e url (parse_html e (content response)) response)"
    unfolding d by (simp add: checked_details_def)
  have c: "map_of (check_technical_factors e url (parse_html e (content response)) response) ''ssl_certificate''
      = Some (ssl_certificate_check url)"
    by (simp add: check_technical_factors_def)
  show ?thesis by (simp add: analyzed_check_def assms t c)
qed

lemma ssl_check_cases:
  "(startswith url ''https://'' \<longrightarrow> has_result (ssl_certificate_check url) ''pass'' 10 10) \<and>
   (\<not> startswith url ''https://'' \<longrightarrow> has_result (ssl_certificate_check url) ''fail'' 0 10)"
  by (simp add: ssl_certificate_check_def has_result_check_dict)

lemma redirect_env_fetch:
  "session_get redirect_env ''http://example.com/'' = Inr sample_response"
  "raise_for_status sample_response = Inr ()"
  by (simp_all add: redirect_env_def raise_for_status_def sample_response_def)

lemma redirect_env_returns: "\<exists>r. analyze_website redirect_env ''http://example.com/'' = Inr r"
  by (rule analyze_website_returns[OF redirect_env_fetch, of "()" "()" "()"])
     (simp_all add: redirect_env_def)

lemma startswith_examples:
  "startswith ''https://example.com/'' ''https://''" "\<not> startswith ''http://example.com/'' ''https://''"
  by (simp_all add: startswith_def)

lemma refusing_env_fetch:
  "session_get refusing_env ''http://example.com/'' = Inl (RequestException ''Connection refused'')"
  by (simp add: refusing_env_def)

text \<open>
  Claim C4, as amended.  The \<open>ssl_certificate\<close> check passes with 10 of 10
  exactly when the URL given to \<open>analyze_website\<close>, as it was requested,
  starts with \<open>https://\<close>, and fails with 0 of 10 otherwise; neither the
  response nor a certificate enters the check.
\<close>

theorem ssl_certificate_check_outcome:
  "(\<exists>c. map_of (check_technical_factors e url soup response) ''ssl_certificate'' = Some c \<and>
      (startswith url ''https://'' \<longrightarrow> has_result c ''pass'' 10 10) \<and>
      (\<not> startswith url ''https://'' \<longrightarrow> has_result c ''fail'' 0 10)) \<and>
   (\<forall>r. analyze_website e url = Inr r \<longrightarrow>
      (\<exists>c. analyzed_check e url ''technical'' ''ssl_certificate'' = Some c \<and>
         (startswith url ''https://'' \<longrightarrow> has_result c ''pass'' 10 10) \<and>
         (\<not> startswith url ''https://'' \<longrightarrow> has_result c ''fail'' 0 10)))"
proof (intro conjI allI impI)
  have c: "map_of (check_technical_factors e url soup response) ''ssl_certificate''
      = Some (ssl_certificate_check url)"
    by (simp add: check_technical_factors_def)
  note R = conjI[OF c ssl_check_cases[of url]]
  show "\<exists>c. map_of (check_technical_factors e url soup response) ''ssl_certificate'' = Some c \<and>
      (startswith url ''https://'' \<longrightarrow> has_result c ''pass'' 10 10) \<and>
      (\<not> startswith url ''https://'' \<longrightarrow> has_result c ''fail'' 0 10)"
    by (rule exI[of _ "ssl_certificate_check url"]) (rule R)
next
  fix r assume "analyze_website e url = Inr r"
  note R = conjI[OF analyzed_check_ssl[OF this] ssl_check_cases[of url]]
  show "\<exists>c. analyzed_check e url ''technical'' ''ssl_certificate'' = Some c \<and>
         (startswith url ''https://'' \<longrightarrow> has_result c ''pass'' 10 10) \<and>
         (\<not> startswith url ''https://'' \<longrightarrow> has_result c ''fail'' 0 10)"
    by (rule exI[of _ "ssl_certificate_check url"]) (rule R)
qed

theorem ssl_certificate_check_outcome_witness:
  "startswith ''https://example.com/'' ''https://'' \<and>
   (\<exists>c. map_of (check_technical_factors redirect_env ''https://example.com/'' page_without_title sample_response)
          ''ssl_certificate'' = Some c \<and> has_result c ''pass'' 10 10) \<and>
   (\<exists>c. analyzed_check redirect_env ''http://example.com/'' ''technical'' ''ssl_certificate'' = Some c \<and>
        has_result c ''fail'' 0 10)"
proof -
  note T1 = ssl_certificate_check_outcome[of redirect_env "''https://example.com/''" page_without_title sample_response]
  from T1[THEN conjunct1] obtain c where C:
    "map_of (check_technical_factors redirect_env ''https://example.com/'' page_without_title sample_response)
          ''ssl_certificate'' = Some c \<and>
      (startswith ''https://example.com/'' ''https://'' \<longrightarrow> has_result c ''pass'' 10 10) \<and>
      (\<not> startswith ''https://example.com/'' ''https://'' \<longrightarrow> has_result c ''fail'' 0 10)"
    by (rule exE)
  note R1 = conjI[OF C[THEN conjunct1] C[THEN conjunct2, THEN conjunct1, THEN mp, OF startswith_examples(1)]]
  have a: "\<exists>c. map_of (check_technical_factors redirect_env ''https://example.com/'' page_without_title sample_response)
          ''ssl_certificate'' = Some c \<and> has_result c ''pass'' 10 10"
    by (rule exI[of _ c]) (rule R1)
  from redirect_env_returns obtain r where r: "analyze_website redirect_env ''http://example.com/'' = Inr r" ..
  note T2 = ssl_certificate_check_outcome[of redirect_env "''http://example.com/''" page_without_title sample_response]
  from T2[THEN conjunct2, rule_format, OF r] obtain d where D:
    "analyzed_check redirect_env ''http://example.com/'' ''technical'' ''ssl_certificate'' = Some d \<and>
         (startswith ''http://example.com/'' ''https://'' \<longrightarrow> has_result d ''pass'' 10 10) \<and>
         (\<not> startswith ''http://example.com/'' ''https://'' \<longrightarrow> has_result d ''fail'' 0 10)"
    by (rule exE)
  note R2 = conjI[OF D[THEN conjunct1] D[THEN conjunct2, THEN conjunct2, THEN mp, OF startswith_examples(2)]]
  have b: "\<exists>c. analyzed_check redirect_env ''http://example.com/'' ''technical'' ''ssl_certificate'' = Some c \<and>
        has_result c ''fail'' 0 10"
    by (rule exI[of _ d]) (rule R2)
  from startswith_examples(1) a b show ?thesis by (intro conjI)
qed

text \<open>
  The claim as it is written fails: a request for \<open>http://example.com/\<close>
  that is redirected to \<open>https://example.com/\<close> has a final URL with the
  scheme HTTPS, and the check fails.
\<close>

theorem ssl_certificate_check_outcome_counterexample:
  "session_get redirect_env ''http://example.com/'' = Inr sample_response \<and>
   resp_url sample_response = ''https://example.com/'' \<and>
   startswith (resp_url sample_response) ''https://'' \<and>
   analyzed_check redirect_env ''http://example.com/'' ''technical'' ''ssl_certificate''
     = Some (ssl_certificate_check ''http://example.com/'') \<and>
   has_result (ssl_certificate_check ''http://example.com/'') ''fail'' 0 10"
proof -
  from redirect_env_returns obtain r where "analyze_website redirect_env ''http://example.com/'' = Inr r" ..
  note a = analyzed_check_ssl[OF this]
  have u: "resp_url sample_response = ''https://example.com/''" by (simp add: sample_response_def)
  have s: "startswith (resp_url sample_response) ''https://''"
    unfolding u by (rule startswith_examples)
  note f = ssl_check_cases[of "''http://example.com/''", THEN conjunct2, THEN mp, OF startswith_examples(2)]
  from redirect_env_fetch(1) u s a f show ?thesis by (intro conjI)
qed

text \<open>
  Claim C8.  When the fetch of the page raises a request exception,
  \<open>analyze_website\<close> raises one exception with the message
  \<open>Failed to fetch website: \<close> followed by the text of the request
  exception; it returns a result only when the fetch returned a response that
  passed \<open>raise_for_status\<close>; and every exception it raises is the plain
  wrapped \<open>Exception\<close>.
\<close>

theorem analyze_website_fetch_failure:
  "(\<forall>m. session_get e url = Inl (RequestException m) \<longrightarrow>
      analyze_website e url = Inl (Exception (''Failed to fetch website: '' @ m))) \<and>
   (\<forall>r. analyze_website e url = Inr r \<longrightarrow>
      (\<exists>response. session_get e url = Inr response \<and> raise_for_status response = Inr ())) \<and>
   (\<forall>err. analyze_website e url = Inl err \<longrightarrow> (\<exists>m. err = Exception m))"
proof (intro conjI allI impI)
  fix m assume "session_get e url = Inl (RequestException m)"
  then have "try_body e url = Inl (RequestException m)"
    by (simp add: try_body_eq and_then_def)
  then show "analyze_website e url = Inl (Exception (''Failed to fetch website: '' @ m))"
    by (simp add: analyze_website_def)
next
  fix r assume "analyze_website e url = Inr r"
  then have "try_body e url = Inr r" by (simp add: analyze_website_Inr)
  from try_body_returns[OF this] obtain response where
    "session_get e url = Inr response" "raise_for_status response = Inr ()"
    by (elim exE conjE)
  then show "\<exists>response. session_get e url = Inr response \<and> raise_for_status response = Inr ()"
    by (intro exI[of _ response] conjI)
next
  fix err assume "analyze_website e url = Inl err"
  then show "\<exists>m. err = Exception m"
    by (auto simp: analyze_website_def split: sum.splits error.splits)
qed

theorem analyze_website_fetch_failure_witness:
  "session_get refusing_env ''http://example.com/'' = Inl (RequestException ''Connection refused'') \<and>
   analyze_website refusing_env ''http://example.com/''
     = Inl (Exception ''Failed to fetch website: Connection refused'') \<and>
   (\<exists>r. analyze_website redirect_env ''http://example.com/'' = Inr r) \<and>
   (\<exists>response. session_get redirect_env ''http://example.com/'' = Inr response \<and>
       raise_for_status response = Inr ())"
proof -
  note T1 = analyze_website_fetch_failure[of refusing_env "''http://example.com/''"]
  note a = T1[THEN conjunct1, rule_format, OF refusing_env_fetch]
  have a': "analyze_website refusing_env ''http://example.com/''
     = Inl (Exception ''Failed to fetch website: Connection refused'')"
    using a by simp
  from redirect_env_returns obtain r where r: "analyze_website redirect_env ''http://example.com/'' = Inr r" ..
  note T2 = analyze_website_fetch_failure[of redirect_env "''http://example.com/''"]
  note b = T2[THEN conjunct2, THEN conjunct1, rule_format, OF r]
  from refusing_env_fetch a' redirect_env_returns b show ?thesis by (intro conjI)
qed

end
